(* ===== verification/Prelude.thy ===== *)
theory Prelude
  imports Main "HOL-Library.Char_ord" "HOL-Library.List_Lexorder" "HOL-Library.AList"
begin

text \<open>
  What every component of the development shares: the Go values the code works with
  (slices that may be nil, calls that may panic, formatted numbers), the few functions of
  Go's \<open>slices\<close>, \<open>strings\<close> and \<open>strconv\<close> packages the code calls, and the generic lemmas
  on lists that the component proofs use.
\<close>

named_theorems outcome_simps "unfolding rules for sequences of Go calls that may panic"

section \<open>Calls that may panic\<close>

text \<open>A Go call either returns or panics (a nil dereference, an index out of range).\<close>

datatype 'a outcome = Ret 'a | Panic

primrec obind :: "'a outcome \<Rightarrow> ('a \<Rightarrow> 'b outcome) \<Rightarrow> 'b outcome" where
  "obind (Ret x) f = f x"
| "obind Panic f = Panic"

lemma obind_Ret_iff [outcome_simps]:
  "obind m f = Ret y \<longleftrightarrow> (\<exists>x. m = Ret x \<and> f x = Ret y)"
  by (cases m) auto

lemma obind_Panic_iff [outcome_simps]:
  "obind m f = Panic \<longleftrightarrow> m = Panic \<or> (\<exists>x. m = Ret x \<and> f x = Panic)"
  by (cases m) auto

lemma obind_cong [fundef_cong]:
  "m = m' \<Longrightarrow> (\<And>x. m' = Ret x \<Longrightarrow> f x = g x) \<Longrightarrow> obind m f = obind m' g"
  by (cases m') auto

section \<open>Slices\<close>

text \<open>
  A Go slice is nil or a sequence. The code distinguishes the two (\<open>== nil\<close>), while
  \<open>range\<close>, \<open>len\<close> and \<open>slices.Contains\<close> read a nil slice as the empty sequence.
\<close>

type_synonym 'a slice = "'a list option"

definition elems :: "'a slice \<Rightarrow> 'a list" where
  "elems s = (case s of None \<Rightarrow> [] | Some xs \<Rightarrow> xs)"

lemma elems_simps [simp]: "elems None = []" "elems (Some xs) = xs"
  by (simp_all add: elems_def)

definition slices_Contains :: "'a list \<Rightarrow> 'a \<Rightarrow> bool" where
  "slices_Contains xs x \<longleftrightarrow> x \<in> set xs"

lemma slices_Contains_iff [simp]: "slices_Contains xs x \<longleftrightarrow> x \<in> set xs"
  by (simp add: slices_Contains_def)

section \<open>First occurrences\<close>

text \<open>The list without its repetitions, each element at the place of its first occurrence.\<close>

fun nub_from :: "'a list \<Rightarrow> 'a list \<Rightarrow> 'a list" where
  "nub_from seen [] = []"
| "nub_from seen (x # xs) =
     (if x \<in> set seen then nub_from seen xs else x # nub_from (seen @ [x]) xs)"

abbreviation nub :: "'a list \<Rightarrow> 'a list" where
  "nub xs \<equiv> nub_from [] xs"

lemma set_nub_from [simp]: "set (nub_from seen xs) = set xs - set seen"
  by (induction xs arbitrary: seen) auto

lemma distinct_nub_from [simp]: "distinct (nub_from seen xs)"
  by (induction xs arbitrary: seen) auto

lemma nub_from_append:
  "nub_from seen (xs @ ys) = nub_from seen xs @ nub_from (seen @ nub_from seen xs) ys"
  by (induction xs arbitrary: seen) auto

section \<open>Strings\<close>

fun strings_Join :: "string list \<Rightarrow> string \<Rightarrow> string" where
  "strings_Join [] sep = []"
| "strings_Join [s] sep = s"
| "strings_Join (s # t # ts) sep = s @ sep @ strings_Join (t # ts) sep"

text \<open>\<open>fmt.Sprintf("%v", xs)\<close> on a slice of strings.\<close>

definition sprint_list :: "string list \<Rightarrow> string" where
  "sprint_list xs = ''['' @ strings_Join xs '' '' @ '']''"

definition digit_char :: "nat \<Rightarrow> char" where
  "digit_char d = char_of (48 + d)"

lemma digit_char_simps:
  "digit_char 0 = CHR ''0''" "digit_char 1 = CHR ''1''" "digit_char 2 = CHR ''2''"
  "digit_char 3 = CHR ''3''" "digit_char 4 = CHR ''4''" "digit_char 5 = CHR ''5''"
  "digit_char 6 = CHR ''6''" "digit_char 7 = CHR ''7''" "digit_char 8 = CHR ''8''"
  "digit_char 9 = CHR ''9''" "digit_char (Suc 0) = CHR ''1''"
  by code_simp+

text \<open>\<open>strconv.FormatUint(n, 10)\<close>.\<close>

fun FormatUint :: "nat \<Rightarrow> string" where
  "FormatUint n =
     (if n < 10 then [digit_char n] else FormatUint (n div 10) @ [digit_char (n mod 10)])"

declare FormatUint.simps [simp del]

definition is_digit :: "char \<Rightarrow> bool" where
  "is_digit c \<longleftrightarrow> CHR ''0'' \<le> c \<and> c \<le> CHR ''9''"

text \<open>Reading a number: the value of a digit and of a sequence of digits, and an optional sign.\<close>

definition digit_value :: "char \<Rightarrow> nat" where
  "digit_value c = of_char c - 48"

definition digits_value :: "string \<Rightarrow> nat" where
  "digits_value s = foldl (\<lambda>n c. 10 * n + digit_value c) 0 s"

definition split_sign :: "string \<Rightarrow> bool \<times> string" where
  "split_sign s =
     (case s of
        [] \<Rightarrow> (False, [])
      | c # cs \<Rightarrow> (if c = CHR ''-'' then (True, cs) else if c = CHR ''+'' then (False, cs) else (False, s)))"

lemma digit_char_facts:
  assumes "d < 10"
  shows "is_digit (digit_char d)" "digit_value (digit_char d) = d"
proof -
  have c: "of_char (digit_char d) = (48 + d :: nat)"
    using assms by (simp add: digit_char_def)
  then show "digit_value (digit_char d) = d" by (simp add: digit_value_def)
  show "is_digit (digit_char d)"
    using assms by (simp add: is_digit_def less_eq_char_def c)
qed

lemma FormatUint_digits:
  "list_all is_digit (FormatUint n) \<and> FormatUint n \<noteq> [] \<and> digits_value (FormatUint n) = n"
proof (induction n rule: FormatUint.induct)
  case (1 n)
  show ?case
  proof (cases "n < 10")
    case True
    then show ?thesis
      by (simp add: FormatUint.simps [of n] digit_char_facts digits_value_def)
  next
    case False
    with 1 have IH: "list_all is_digit (FormatUint (n div 10))" "digits_value (FormatUint (n div 10)) = n div 10"
      by auto
    have m: "is_digit (digit_char (n mod 10))" "digit_value (digit_char (n mod 10)) = n mod 10"
      by (simp_all add: digit_char_facts)
    from False IH m show ?thesis
      by (simp add: FormatUint.simps [of n] digits_value_def)
  qed
qed

lemma split_sign_digits: "list_all is_digit ds \<Longrightarrow> split_sign ds = (False, ds)"
  by (cases ds) (auto simp: split_sign_def is_digit_def less_eq_char_def)

section \<open>Lists\<close>

lemma takeWhile_dropWhile_unique:
  assumes "\<forall>c \<in> set xs. P c" and "ys = [] \<or> \<not> P (hd ys)"
  shows "takeWhile P (xs @ ys) = xs" and "dropWhile P (xs @ ys) = ys"
  using assms by (induction xs; cases ys; auto)+

lemma takeWhile_all: "\<forall>c \<in> set (takeWhile P xs). P c"
  by (auto dest: set_takeWhileD)

lemma dropWhile_stop: "dropWhile P xs = [] \<or> \<not> P (hd (dropWhile P xs))"
  using hd_dropWhile by blast

lemma take2_eq_iff: "take 2 xs = [a, b] \<longleftrightarrow> (\<exists>ys. xs = a # b # ys)"
  by (cases xs; cases "tl xs") (auto simp: numeral_2_eq_2)

lemma find_skip: "\<forall>b \<in> set bs. \<not> P b \<Longrightarrow> find P (bs @ xs) = find P xs"
  by (induction bs) auto

lemma find_first_split:
  "find P xs = Some x \<longleftrightarrow> (\<exists>bs as. xs = bs @ x # as \<and> P x \<and> (\<forall>b \<in> set bs. \<not> P b))"
proof
  assume "find P xs = Some x"
  then show "\<exists>bs as. xs = bs @ x # as \<and> P x \<and> (\<forall>b \<in> set bs. \<not> P b)"
  proof (induction xs)
    case Nil
    then show ?case by simp
  next
    case (Cons a xs)
    show ?case
    proof (cases "P a")
      case True
      with Cons.prems show ?thesis by (intro exI [of _ "[]"] exI [of _ xs]) auto
    next
      case False
      with Cons obtain bs as where "xs = bs @ x # as" "P x" "\<forall>b \<in> set bs. \<not> P b" by auto
      with False show ?thesis by (intro exI [of _ "a # bs"] exI [of _ as]) auto
    qed
  qed
next
  assume "\<exists>bs as. xs = bs @ x # as \<and> P x \<and> (\<forall>b \<in> set bs. \<not> P b)"
  then show "find P xs = Some x" by (auto simp: find_skip)
qed

section \<open>Sums over the values of a map\<close>

definition sum_map :: "('a \<rightharpoonup> 'b) \<Rightarrow> ('b \<Rightarrow> 'c :: ab_group_add) \<Rightarrow> 'c" where
  "sum_map m g = (\<Sum>x \<in> dom m. g (the (m x)))"

lemma sum_map_empty [simp]: "sum_map Map.empty g = 0"
  by (simp add: sum_map_def)

lemma sum_map_update:
  assumes "finite (dom m)"
  shows "sum_map (m(k \<mapsto> v)) g = sum_map m g + g v - (case m k of None \<Rightarrow> 0 | Some c \<Rightarrow> g c)"
proof -
  have rest: "(\<Sum>x \<in> dom m - {k}. g (the ((m(k \<mapsto> v)) x))) = (\<Sum>x \<in> dom m - {k}. g (the (m x)))"
    by (rule sum.cong) auto
  have "sum_map (m(k \<mapsto> v)) g = g v + (\<Sum>x \<in> dom m - {k}. g (the (m x)))"
    using assms rest by (simp add: sum_map_def sum.insert_remove)
  moreover have "sum_map m g = (case m k of None \<Rightarrow> 0 | Some c \<Rightarrow> g c) + (\<Sum>x \<in> dom m - {k}. g (the (m x)))"
  proof (cases "m k")
    case None
    then have "dom m - {k} = dom m" by auto
    with None show ?thesis by (simp add: sum_map_def)
  next
    case (Some c)
    then have "k \<in> dom m" by auto
    from sum.remove [OF assms this, of "\<lambda>x. g (the (m x))"] Some show ?thesis
      by (simp add: sum_map_def)
  qed
  ultimately show ?thesis by simp
qed

end
