(* ===== verification/DNSClass_Types.thy ===== *)
theory DNSClass_Types
  imports Prelude
begin

text \<open>
  The API objects of \<open>api/v1alpha1/dnsclass_types.go\<close> and the parts of the Kubernetes
  objects (\<open>PodDNSConfig\<close>, \<open>Condition\<close>) they hold. Fields of a slice or pointer type are
  options, because the code tests them against nil.
\<close>

section \<open>Values of \<open>k8s.io/api/core/v1\<close> the types are built from\<close>

text \<open>\<open>corev1.DNSPolicy\<close> is a string type with four documented values.\<close>

type_synonym DNSPolicy_t = string

definition DNSClusterFirstWithHostNet :: DNSPolicy_t where
  "DNSClusterFirstWithHostNet = ''ClusterFirstWithHostNet''"

definition DNSClusterFirst :: DNSPolicy_t where
  "DNSClusterFirst = ''ClusterFirst''"

definition DNSDefault :: DNSPolicy_t where
  "DNSDefault = ''Default''"

definition DNSNone :: DNSPolicy_t where
  "DNSNone = ''None''"

lemmas policy_defs =
  DNSClusterFirstWithHostNet_def DNSClusterFirst_def DNSDefault_def DNSNone_def

record PodDNSConfigOption =
  opt_Name :: string
  opt_Value :: "string option"

record PodDNSConfig =
  Nameservers :: "string slice"
  Searches :: "string slice"
  Options :: "PodDNSConfigOption slice"

definition empty_PodDNSConfig :: PodDNSConfig where
  "empty_PodDNSConfig = \<lparr>Nameservers = None, Searches = None, Options = None\<rparr>"

text \<open>\<open>metav1.Condition\<close>; a point in time is a number.\<close>

datatype ConditionStatus = ConditionTrue | ConditionFalse | ConditionUnknown

record Condition =
  cond_Type :: string
  cond_Status :: ConditionStatus
  cond_Message :: string
  cond_Reason :: string
  cond_LastTransitionTime :: int

section \<open>DNSClass\<close>

definition StateInit :: string where
  "StateInit = ''initializing''"

definition StateReady :: string where
  "StateReady = ''ready''"

definition StateError :: string where
  "StateError = ''error''"

lemmas state_defs = StateInit_def StateReady_def StateError_def

lemma states_distinct [simp]:
  "StateInit \<noteq> StateReady" "StateReady \<noteq> StateInit"
  "StateInit \<noteq> StateError" "StateError \<noteq> StateInit"
  "StateReady \<noteq> StateError" "StateError \<noteq> StateReady"
  "StateInit \<noteq> []" "StateReady \<noteq> []" "StateError \<noteq> []"
  by (simp_all add: state_defs)

record DNSClassSpec =
  AllowedNamespaces :: "string slice"
  DisabledNamespaces :: "string slice"
  AllowedDNSPolicies :: "DNSPolicy_t slice"
  DNSPolicy :: DNSPolicy_t
  DNSConfig :: "PodDNSConfig option"

record DiscoveredFields =
  df_Nameservers :: "string slice"
  df_ClusterDomain :: string

definition empty_DiscoveredFields :: DiscoveredFields where
  "empty_DiscoveredFields = \<lparr>df_Nameservers = None, df_ClusterDomain = []\<rparr>"

record DNSClassStatus =
  Conditions :: "Condition list"
  State :: string
  st_DiscoveredFields :: "DiscoveredFields option"

text \<open>
  Of \<open>metav1.TypeMeta\<close> the code reads the group and kind, of \<open>metav1.ObjectMeta\<close> the name,
  the namespace and the generation. It sends the resource version back with a status update, for
  the API server to compare; this is an opaque string.
\<close>

record DNSClass =
  dc_GroupKind :: "string \<times> string"
  dc_Name :: string
  dc_Namespace :: string
  dc_Generation :: int
  dc_ResourceVersion :: string
  dc_Spec :: DNSClassSpec
  dc_Status :: DNSClassStatus

text \<open>The zero values, as \<open>DNSClass{}\<close> builds them.\<close>

definition empty_DNSClassSpec :: DNSClassSpec where
  "empty_DNSClassSpec =
     \<lparr>AllowedNamespaces = None, DisabledNamespaces = None, AllowedDNSPolicies = None,
      DNSPolicy = [], DNSConfig = None\<rparr>"

definition empty_DNSClassStatus :: DNSClassStatus where
  "empty_DNSClassStatus = \<lparr>Conditions = [], State = [], st_DiscoveredFields = None\<rparr>"

definition empty_DNSClass :: DNSClass where
  "empty_DNSClass =
     \<lparr>dc_GroupKind = ([], []), dc_Name = [], dc_Namespace = [], dc_Generation = 0,
      dc_ResourceVersion = [], dc_Spec = empty_DNSClassSpec, dc_Status = empty_DNSClassStatus\<rparr>"

text \<open>The search templates of a class, none when it has no \<open>DNSConfig\<close>.\<close>

definition class_searches :: "DNSClass \<Rightarrow> string list" where
  "class_searches dc =
     (case DNSConfig (dc_Spec dc) of None \<Rightarrow> [] | Some c \<Rightarrow> elems (Searches c))"

end
