(* ===== verification/Template_Keys.thy ===== *)
theory Template_Keys
  imports DNSClass_Types
begin

text \<open>
  \<open>ExtractTemplateKeysRegex\<close> of \<open>api/v1alpha1/dnsclass_types.go\<close>: the keys of the
  \<open>{{ .key }}\<close> patterns in the search list of a class. The pattern itself is a value of a
  small type of regular expressions with its matching relation; the scanner is an executable
  function, proved to find the leftmost, non-overlapping matches of that pattern, which is
  what \<open>FindAllStringSubmatch(search, -1)\<close> returns.
\<close>

section \<open>The regular expression\<close>

text \<open>The constructs of Go's \<open>regexp\<close> syntax the pattern uses; \<open>Grp\<close> is a capturing group.\<close>

datatype re = Lit char | Cls "char \<Rightarrow> bool" | Cat re re | Star re | Plus re | Grp re

text \<open>\<open>re_match r s caps\<close>: the whole of \<open>s\<close> matches \<open>r\<close>, the groups capturing \<open>caps\<close>.\<close>

inductive re_match :: "re \<Rightarrow> string \<Rightarrow> string list \<Rightarrow> bool" where
  lit: "re_match (Lit c) [c] []"
| cls: "P c \<Longrightarrow> re_match (Cls P) [c] []"
| cat: "re_match a s cs \<Longrightarrow> re_match b t ds \<Longrightarrow> re_match (Cat a b) (s @ t) (cs @ ds)"
| star0: "re_match (Star r) [] []"
| starS: "re_match r s cs \<Longrightarrow> re_match (Star r) t ds \<Longrightarrow> re_match (Star r) (s @ t) (cs @ ds)"
| plus: "re_match r s cs \<Longrightarrow> re_match (Star r) t ds \<Longrightarrow> re_match (Plus r) (s @ t) (cs @ ds)"
| grp: "re_match r s cs \<Longrightarrow> re_match (Grp r) s (s # cs)"

inductive_simps re_match_Lit [simp]: "re_match (Lit c) s cs"
inductive_simps re_match_Cls [simp]: "re_match (Cls P) s cs"
inductive_simps re_match_Cat: "re_match (Cat a b) s cs"
inductive_simps re_match_Plus: "re_match (Plus r) s cs"
inductive_simps re_match_Grp: "re_match (Grp r) s cs"

lemma re_match_Star_ClsD:
  "re_match r s cs \<Longrightarrow> r = Star (Cls P) \<Longrightarrow> cs = [] \<and> (\<forall>c \<in> set s. P c)"
  by (induction r s cs rule: re_match.induct) auto

lemma re_match_Star_ClsI: "\<forall>c \<in> set s. P c \<Longrightarrow> re_match (Star (Cls P)) s []"
proof (induction s)
  case Nil
  show ?case by (rule star0)
next
  case (Cons c s)
  then have "re_match (Star (Cls P)) ([c] @ s) ([] @ [])"
    by (intro starS) auto
  then show ?case by simp
qed

lemma re_match_Star_Cls:
  "re_match (Star (Cls P)) s cs \<longleftrightarrow> cs = [] \<and> (\<forall>c \<in> set s. P c)"
  using re_match_Star_ClsD re_match_Star_ClsI by blast

lemma re_match_Plus_Cls:
  "re_match (Plus (Cls P)) s cs \<longleftrightarrow> cs = [] \<and> s \<noteq> [] \<and> (\<forall>c \<in> set s. P c)"
proof
  assume "re_match (Plus (Cls P)) s cs"
  then show "cs = [] \<and> s \<noteq> [] \<and> (\<forall>c \<in> set s. P c)"
    by (auto simp: re_match_Plus re_match_Star_Cls)
next
  assume a: "cs = [] \<and> s \<noteq> [] \<and> (\<forall>c \<in> set s. P c)"
  then obtain c t where s: "s = [c] @ t" and P: "P c" "\<forall>c \<in> set t. P c"
    by (cases s) auto
  from P have "re_match (Plus (Cls P)) ([c] @ t) ([] @ [])"
    by (intro plus) (auto simp: re_match_Star_Cls)
  with a s show "re_match (Plus (Cls P)) s cs" by simp
qed

text \<open>Sequences whose first part is one of the pattern's pieces.\<close>

lemma re_match_Lit_seq:
  "re_match (Cat (Lit c) b) s cs \<longleftrightarrow> (\<exists>t. s = c # t \<and> re_match b t cs)"
proof
  assume "re_match (Cat (Lit c) b) s cs"
  then show "\<exists>t. s = c # t \<and> re_match b t cs"
    by (elim re_match.cases [of "Cat (Lit c) b"]) auto
next
  assume "\<exists>t. s = c # t \<and> re_match b t cs"
  then show "re_match (Cat (Lit c) b) s cs"
    using cat [OF lit] by fastforce
qed

lemma re_match_Star_seq:
  "re_match (Cat (Star (Cls P)) b) s cs \<longleftrightarrow>
     (\<exists>u t. s = u @ t \<and> (\<forall>c \<in> set u. P c) \<and> re_match b t cs)"
proof
  assume "re_match (Cat (Star (Cls P)) b) s cs"
  then obtain u t cs1 cs2 where "s = u @ t" "cs = cs1 @ cs2"
    "re_match (Star (Cls P)) u cs1" "re_match b t cs2"
    by (elim re_match.cases [of "Cat (Star (Cls P)) b"]) auto
  then show "\<exists>u t. s = u @ t \<and> (\<forall>c \<in> set u. P c) \<and> re_match b t cs"
    unfolding re_match_Star_Cls by (intro exI [of _ u] exI [of _ t]) simp
next
  assume "\<exists>u t. s = u @ t \<and> (\<forall>c \<in> set u. P c) \<and> re_match b t cs"
  then show "re_match (Cat (Star (Cls P)) b) s cs"
    using cat [OF re_match_Star_ClsI] by fastforce
qed

lemma re_match_Grp_seq:
  "re_match (Cat (Grp (Plus (Cls P))) b) s cs \<longleftrightarrow>
     (\<exists>k t ds. s = k @ t \<and> cs = k # ds \<and> k \<noteq> [] \<and> (\<forall>c \<in> set k. P c) \<and> re_match b t ds)"
proof
  assume "re_match (Cat (Grp (Plus (Cls P))) b) s cs"
  then obtain k t cs1 cs2 where "s = k @ t" "cs = cs1 @ cs2"
    "re_match (Grp (Plus (Cls P))) k cs1" "re_match b t cs2"
    by (elim re_match.cases [of "Cat (Grp (Plus (Cls P))) b"]) auto
  then show "\<exists>k t ds. s = k @ t \<and> cs = k # ds \<and> k \<noteq> [] \<and> (\<forall>c \<in> set k. P c) \<and> re_match b t ds"
    unfolding re_match_Grp re_match_Plus_Cls by (intro exI [of _ k] exI [of _ t] exI [of _ cs2]) auto
next
  assume "\<exists>k t ds. s = k @ t \<and> cs = k # ds \<and> k \<noteq> [] \<and> (\<forall>c \<in> set k. P c) \<and> re_match b t ds"
  then obtain k t ds where k: "s = k @ t" "cs = k # ds" "k \<noteq> []" "\<forall>c \<in> set k. P c"
    and b: "re_match b t ds" by blast
  from k have "re_match (Grp (Plus (Cls P))) k [k]"
    by (intro grp) (simp add: re_match_Plus_Cls)
  from cat [OF this b] k show "re_match (Cat (Grp (Plus (Cls P))) b) s cs" by simp
qed

lemma re_match_seqI:
  "re_match b t cs \<Longrightarrow> re_match (Cat (Lit c) b) (c # t) cs"
  "\<forall>c \<in> set u. P c \<Longrightarrow> re_match b t cs \<Longrightarrow> re_match (Cat (Star (Cls P)) b) (u @ t) cs"
  "\<forall>c \<in> set k. P c \<Longrightarrow> k \<noteq> [] \<Longrightarrow> re_match b t ds \<Longrightarrow>
     re_match (Cat (Grp (Plus (Cls P))) b) (k @ t) (k # ds)"
  unfolding re_match_Lit_seq re_match_Star_seq re_match_Grp_seq by blast+

lemmas re_match_seq = re_match_Lit_seq re_match_Star_seq re_match_Grp_seq

text \<open>\<open>\s\<close> and \<open>[a-zA-Z0-9_]\<close> in Go's syntax.\<close>

definition re_space :: "char \<Rightarrow> bool" where
  "re_space c \<longleftrightarrow> c = CHR 0x09 \<or> c = CHR 0x0A \<or> c = CHR 0x0C \<or> c = CHR 0x0D \<or> c = CHR '' ''"

definition re_word :: "char \<Rightarrow> bool" where
  "re_word c \<longleftrightarrow>
     (CHR ''a'' \<le> c \<and> c \<le> CHR ''z'') \<or> (CHR ''A'' \<le> c \<and> c \<le> CHR ''Z'') \<or>
     (CHR ''0'' \<le> c \<and> c \<le> CHR ''9'') \<or> c = CHR ''_''"

text \<open>The literal \<open>{{\s*\.([a-zA-Z0-9_]+)\s*}}\<close>.\<close>

definition template_key_re :: re where
  "template_key_re =
     Cat (Lit CHR ''{'') (Cat (Lit CHR ''{'') (Cat (Star (Cls re_space)) (Cat (Lit CHR ''.'')
      (Cat (Grp (Plus (Cls re_word))) (Cat (Star (Cls re_space))
       (Cat (Lit CHR ''}'') (Lit CHR ''}'')))))))"

lemma template_key_re_iff:
  "re_match template_key_re m cs \<longleftrightarrow>
     (\<exists>sp k sp'. m = ''{{'' @ sp @ ''.'' @ k @ sp' @ ''}}'' \<and> cs = [k] \<and> k \<noteq> [] \<and>
        (\<forall>c \<in> set sp. re_space c) \<and> (\<forall>c \<in> set k. re_word c) \<and> (\<forall>c \<in> set sp'. re_space c))"
proof
  assume "re_match template_key_re m cs"
  then obtain sp k sp' where "m = CHR ''{'' # CHR ''{'' # sp @ CHR ''.'' # k @ sp' @ ''}}''"
    and "cs = [k]" "k \<noteq> []" "\<forall>c \<in> set sp. re_space c" "\<forall>c \<in> set k. re_word c"
    "\<forall>c \<in> set sp'. re_space c"
    by (auto simp: template_key_re_def re_match_seq)
  then show "\<exists>sp k sp'. m = ''{{'' @ sp @ ''.'' @ k @ sp' @ ''}}'' \<and> cs = [k] \<and> k \<noteq> [] \<and>
      (\<forall>c \<in> set sp. re_space c) \<and> (\<forall>c \<in> set k. re_word c) \<and> (\<forall>c \<in> set sp'. re_space c)"
    by (intro exI [of _ sp] exI [of _ k] exI [of _ sp']) simp
next
  assume "\<exists>sp k sp'. m = ''{{'' @ sp @ ''.'' @ k @ sp' @ ''}}'' \<and> cs = [k] \<and> k \<noteq> [] \<and>
      (\<forall>c \<in> set sp. re_space c) \<and> (\<forall>c \<in> set k. re_word c) \<and> (\<forall>c \<in> set sp'. re_space c)"
  then obtain sp k sp' where "m = ''{{'' @ sp @ ''.'' @ k @ sp' @ ''}}''"
    and "cs = [k]" "k \<noteq> []" "\<forall>c \<in> set sp. re_space c" "\<forall>c \<in> set k. re_word c"
    "\<forall>c \<in> set sp'. re_space c"
    by blast
  moreover have "re_match (Cat (Lit CHR ''}'') (Lit CHR ''}'')) ''}}'' []"
    by (simp add: re_match_Lit_seq)
  ultimately show "re_match template_key_re m cs"
    unfolding template_key_re_def
    by (auto intro!: re_match_seqI)
qed

section \<open>The scanner\<close>

text \<open>The match that starts at the head of the string: the key and what follows the match.\<close>

definition match_at :: "string \<Rightarrow> (string \<times> string) option" where
  "match_at s =
     (if take 2 s = ''{{'' then
        (case dropWhile re_space (drop 2 s) of
           c # r \<Rightarrow>
             (if c = CHR ''.'' then
                (let k = takeWhile re_word r; t = dropWhile re_space (dropWhile re_word r)
                 in if k \<noteq> [] \<and> take 2 t = ''}}'' then Some (k, drop 2 t) else None)
              else None)
         | [] \<Rightarrow> None)
      else None)"

lemma not_space_word [simp]: "re_space c \<Longrightarrow> \<not> re_word c"
  by (auto simp: re_space_def re_word_def)

lemma not_space_dot [simp]: "\<not> re_space CHR ''.''" "\<not> re_space CHR ''}''"
    "\<not> re_word CHR ''}''" "\<not> re_word CHR ''.''"
  by (simp_all add: re_space_def re_word_def)

lemma match_at_complete:
  assumes m: "re_match template_key_re m [k]"
  shows "match_at (m @ rest) = Some (k, rest)"
proof -
  from m obtain sp sp' where m_eq: "m = ''{{'' @ sp @ ''.'' @ k @ sp' @ ''}}''" and k: "k \<noteq> []"
    and cls: "\<forall>c \<in> set sp. re_space c" "\<forall>c \<in> set k. re_word c" "\<forall>c \<in> set sp'. re_space c"
    by (auto simp: template_key_re_iff)
  have sp: "dropWhile re_space (sp @ ''.'' @ k @ sp' @ ''}}'' @ rest)
      = ''.'' @ k @ sp' @ ''}}'' @ rest"
    by (rule takeWhile_dropWhile_unique) (use cls in auto)
  have stop: "sp' @ ''}}'' @ rest = [] \<or> \<not> re_word (hd (sp' @ ''}}'' @ rest))"
    using cls(3) by (cases sp') auto
  have word: "takeWhile re_word (k @ sp' @ ''}}'' @ rest) = k"
    "dropWhile re_word (k @ sp' @ ''}}'' @ rest) = sp' @ ''}}'' @ rest"
    by (rule takeWhile_dropWhile_unique [OF cls(2) stop])+
  have sp': "dropWhile re_space (sp' @ ''}}'' @ rest) = ''}}'' @ rest"
    by (rule takeWhile_dropWhile_unique) (use cls in auto)
  show ?thesis
    using sp word sp' k by (simp add: match_at_def m_eq Let_def)
qed

lemma match_at_sound:
  assumes "match_at s = Some (k, rest)"
  shows "\<exists>m. s = m @ rest \<and> re_match template_key_re m [k]"
proof -
  let ?d = "dropWhile re_space (drop 2 s)"
  from assms obtain r where h: "take 2 s = ''{{''" and d: "?d = CHR ''.'' # r"
    and k: "k = takeWhile re_word r" "k \<noteq> []"
    and e: "take 2 (dropWhile re_space (dropWhile re_word r)) = ''}}''"
    and rest: "rest = drop 2 (dropWhile re_space (dropWhile re_word r))"
    by (auto simp: match_at_def Let_def split: if_splits list.splits)
  let ?w = "dropWhile re_word r"
  obtain sp where sp: "sp = takeWhile re_space (drop 2 s)" by simp
  obtain sp' where sp': "sp' = takeWhile re_space ?w" by simp
  let ?m = "''{{'' @ sp @ ''.'' @ k @ sp' @ ''}}''"
  have t: "dropWhile re_space ?w = ''}}'' @ rest"
    using append_take_drop_id [of 2 "dropWhile re_space ?w"] by (simp only: e rest)
  have w: "?w = sp' @ ''}}'' @ rest"
    using takeWhile_dropWhile_id [of re_space ?w] by (simp only: t sp')
  have "r = k @ sp' @ ''}}'' @ rest"
    using takeWhile_dropWhile_id [of re_word r] by (simp only: w k(1))
  then have "drop 2 s = sp @ ''.'' @ k @ sp' @ ''}}'' @ rest"
    using takeWhile_dropWhile_id [of re_space "drop 2 s"] d sp by simp
  then have "s = ?m @ rest"
    using append_take_drop_id [of 2 s] h by simp
  moreover have "\<forall>c \<in> set sp. re_space c" "\<forall>c \<in> set k. re_word c" "\<forall>c \<in> set sp'. re_space c"
    unfolding sp sp' k(1) by (rule takeWhile_all)+
  then have "re_match template_key_re ?m [k]"
    unfolding template_key_re_iff using k(2) by blast
  ultimately show ?thesis by blast
qed

lemma match_at_iff:
  "match_at s = Some (k, rest) \<longleftrightarrow> (\<exists>m. s = m @ rest \<and> re_match template_key_re m [k])"
  using match_at_sound match_at_complete by blast

lemma match_at_shorter: "match_at s = Some (k, rest) \<Longrightarrow> length rest < length s"
  by (auto simp: match_at_iff template_key_re_iff)

text \<open>
  \<open>FindAllStringSubmatch(s, -1)\<close>: each match as the list of the whole match and its group.
\<close>

function FindAllStringSubmatch :: "string \<Rightarrow> string list list" where
  "FindAllStringSubmatch [] = []"
| "FindAllStringSubmatch (c # cs) =
     (case match_at (c # cs) of
        None \<Rightarrow> FindAllStringSubmatch cs
      | Some (k, rest) \<Rightarrow>
          [take (length (c # cs) - length rest) (c # cs), k] # FindAllStringSubmatch rest)"
  by pat_completeness auto
termination
  by (relation "measure length") (auto dest: match_at_shorter)

section \<open>The scanner finds the leftmost matches\<close>

text \<open>
  \<open>starts_match s\<close>: some match of the pattern begins at the head of \<open>s\<close>.
  \<open>leftmost_matches s ms\<close>: \<open>ms\<close> are the matches of the pattern in \<open>s\<close> from left to right,
  each at the first place after the one before where a match begins, and none after the last.
\<close>

definition starts_match :: "string \<Rightarrow> bool" where
  "starts_match s \<longleftrightarrow> (\<exists>m k rest. s = m @ rest \<and> re_match template_key_re m [k])"

inductive leftmost_matches :: "string \<Rightarrow> string list list \<Rightarrow> bool" where
  lm_none: "(\<forall>i. \<not> starts_match (drop i s)) \<Longrightarrow> leftmost_matches s []"
| lm_match: "s = g @ m @ rest \<Longrightarrow> (\<forall>i < length g. \<not> starts_match (drop i s)) \<Longrightarrow>
     re_match template_key_re m [k] \<Longrightarrow> leftmost_matches rest ms \<Longrightarrow>
     leftmost_matches s ([m, k] # ms)"

lemma starts_match_iff: "starts_match s \<longleftrightarrow> match_at s \<noteq> None"
  unfolding starts_match_def using match_at_iff by (metis not_None_eq surj_pair)

lemma FindAll_skip:
  "\<forall>i < length g. \<not> starts_match (drop i (g @ s)) \<Longrightarrow>
     FindAllStringSubmatch (g @ s) = FindAllStringSubmatch s"
proof (induction g)
  case Nil
  show ?case by simp
next
  case (Cons c g)
  from Cons.prems have "match_at (c # g @ s) = None"
    unfolding starts_match_iff by (metis drop0 append_Cons length_Cons zero_less_Suc)
  moreover have "\<forall>i < length g. \<not> starts_match (drop i (g @ s))"
    using Cons.prems by (metis Suc_less_eq append_Cons drop_Suc_Cons length_Cons)
  ultimately show ?case using Cons.IH by simp
qed

lemma FindAll_none: "\<forall>i. \<not> starts_match (drop i s) \<Longrightarrow> FindAllStringSubmatch s = []"
  using FindAll_skip [of s "[]"] by simp

lemma FindAll_match:
  assumes "re_match template_key_re m [k]"
  shows "FindAllStringSubmatch (m @ rest) = [m, k] # FindAllStringSubmatch rest"
proof -
  from assms obtain c cs where "m = c # cs"
    by (auto simp: template_key_re_iff)
  then show ?thesis using match_at_complete [OF assms, of rest] by simp
qed

lemma leftmost_FindAll: "leftmost_matches s ms \<Longrightarrow> FindAllStringSubmatch s = ms"
  by (induction rule: leftmost_matches.induct) (auto simp: FindAll_none FindAll_skip FindAll_match)

lemma leftmost_Cons:
  assumes "leftmost_matches cs ms" and no: "\<not> starts_match (c # cs)"
  shows "leftmost_matches (c # cs) ms"
  using assms(1)
proof cases
  case lm_none
  then have "\<forall>i. \<not> starts_match (drop i (c # cs))"
    using no by (metis drop_Cons')
  with lm_none show ?thesis by (auto intro: leftmost_matches.lm_none)
next
  case (lm_match g m rest k ms')
  have "\<forall>i < length (c # g). \<not> starts_match (drop i (c # cs))"
    using lm_match(3) no by (auto simp: less_Suc_eq_0_disj)
  with lm_match show ?thesis
    by (auto intro: leftmost_matches.lm_match [of _ "c # g"])
qed

lemma FindAll_leftmost: "leftmost_matches s (FindAllStringSubmatch s)"
proof (induction s rule: FindAllStringSubmatch.induct)
  case 1
  have "\<not> starts_match []"
    by (auto simp: starts_match_def template_key_re_iff)
  then show ?case by (simp add: lm_none)
next
  case (2 c cs)
  show ?case
  proof (cases "match_at (c # cs)")
    case None
    with 2 show ?thesis by (simp add: leftmost_Cons starts_match_iff)
  next
    case (Some p)
    then obtain k rest where p: "match_at (c # cs) = Some (k, rest)" by (cases p) auto
    then obtain m where m: "c # cs = m @ rest" "re_match template_key_re m [k]"
      by (auto dest: match_at_sound)
    have "leftmost_matches (m @ rest) ([m, k] # FindAllStringSubmatch rest)"
      by (rule leftmost_matches.lm_match [of _ "[]"]) (use 2 p m in auto)
    then show ?thesis
      using FindAll_match [OF m(2), of rest] by (simp only: m(1))
  qed
qed

text \<open>
  C23. The scanner of the search templates returns exactly the leftmost, non-overlapping
  matches of the source's regular expression, each with the key its group captures, for
  every string.
\<close>

theorem FindAll_iff_leftmost: "FindAllStringSubmatch s = ms \<longleftrightarrow> leftmost_matches s ms"
  using leftmost_FindAll FindAll_leftmost by blast

section \<open>ExtractTemplateKeysRegex\<close>

text \<open>The keys of the matches that capture one.\<close>

definition scan_keys :: "string \<Rightarrow> string list" where
  "scan_keys s = map (\<lambda>m. m ! 1) (FindAllStringSubmatch s)"

text \<open>The two nested loops of the method, over the search list and over the matches.\<close>

fun add_matches :: "string list \<Rightarrow> string list list \<Rightarrow> string list" where
  "add_matches keys [] = keys"
| "add_matches keys (m # ms) =
     (if length m > 1 \<and> \<not> slices_Contains keys (m ! 1) then add_matches (keys @ [m ! 1]) ms
      else add_matches keys ms)"

fun add_searches :: "string list \<Rightarrow> string list \<Rightarrow> string list" where
  "add_searches keys [] = keys"
| "add_searches keys (search # ss) =
     add_searches (add_matches keys (FindAllStringSubmatch search)) ss"

definition ExtractTemplateKeysRegex :: "DNSClass \<Rightarrow> string list" where
  "ExtractTemplateKeysRegex r =
     (case DNSConfig (dc_Spec r) of
        Some c \<Rightarrow> add_searches [] (elems (Searches c))
      | None \<Rightarrow> [])"

lemma FindAll_length: "m \<in> set (FindAllStringSubmatch s) \<Longrightarrow> length m = 2"
  by (induction s rule: FindAllStringSubmatch.induct) (auto split: option.splits)

lemma add_matches_nub:
  "\<forall>m \<in> set ms. length m = 2 \<Longrightarrow> add_matches keys ms = keys @ nub_from keys (map (\<lambda>m. m ! 1) ms)"
  by (induction ms arbitrary: keys) auto

lemma add_searches_nub: "add_searches keys ss = keys @ nub_from keys (concat (map scan_keys ss))"
proof (induction ss arbitrary: keys)
  case Nil
  show ?case by simp
next
  case (Cons s ss)
  have "add_matches keys (FindAllStringSubmatch s) = keys @ nub_from keys (scan_keys s)"
    using add_matches_nub [of "FindAllStringSubmatch s"] FindAll_length
    unfolding scan_keys_def by blast
  then show ?case by (simp add: Cons.IH nub_from_append)
qed

lemma ExtractTemplateKeys_nub:
  "ExtractTemplateKeysRegex dc = nub (concat (map scan_keys (class_searches dc)))"
  by (simp add: ExtractTemplateKeysRegex_def class_searches_def add_searches_nub
      split: option.split)

section \<open>The interface of the key extraction\<close>

text \<open>
  What the validating webhook and the reconciler rely on: the keys of a class are those its
  search strings use, each listed once, and they depend on the search strings only.
\<close>

locale key_extractor =
  fixes keys :: "DNSClass \<Rightarrow> string list"
    and scan :: "string \<Rightarrow> string list"
  assumes keys_distinct: "distinct (keys dc)"
    and keys_used: "set (keys dc) = (\<Union>s \<in> set (class_searches dc). set (scan s))"
    and keys_of_searches: "class_searches dc = class_searches dc' \<Longrightarrow> keys dc = keys dc'"
begin

lemma some_key_iff:
  "(\<exists>k \<in> set (keys dc). P k) \<longleftrightarrow> (\<exists>s \<in> set (class_searches dc). \<exists>k \<in> set (scan s). P k)"
  by (simp add: keys_used)

lemma all_keys_iff:
  "(\<forall>k \<in> set (keys dc). P k) \<longleftrightarrow> (\<forall>s \<in> set (class_searches dc). \<forall>k \<in> set (scan s). P k)"
  by (simp add: keys_used)

lemma no_searches: "class_searches dc = [] \<Longrightarrow> keys dc = []"
  using keys_used [of dc] by simp

end

interpretation tk: key_extractor ExtractTemplateKeysRegex scan_keys
  by unfold_locales (simp_all add: ExtractTemplateKeys_nub)

text \<open>
  \<open>ExtractTemplateKeysRegex\<close> returns the keys of all the patterns in the search list,
  without repetitions and in the order of their first occurrence, and nothing else.
\<close>

theorem ExtractTemplateKeys_spec:
  "ExtractTemplateKeysRegex dc = nub (concat (map scan_keys (class_searches dc))) \<and>
   distinct (ExtractTemplateKeysRegex dc) \<and>
   set (ExtractTemplateKeysRegex dc) = (\<Union>s \<in> set (class_searches dc). set (scan_keys s))"
  using ExtractTemplateKeys_nub tk.keys_distinct tk.keys_used by simp

end
