(* ===== verification/Controller.thy ===== *)
theory Controller
  imports Template_Keys
begin

text \<open>
  The reconciler of \<open>internal/controller/dnsclass_controller.go\<close>: discovery of the cluster
  domain and the nameservers from the kubelet configuration, the status it writes, and the
  filter on watch events. The Kubernetes client, the REST client, the JSON decoder, the clock,
  \<open>meta.SetStatusCondition\<close> and \<open>retry.RetryOnConflict\<close> are parameters that act on a world of
  any type; what the reconciler does to the outside is recorded in a trace. Log output is left
  out.
\<close>

section \<open>The outside world\<close>

text \<open>What \<open>json.Unmarshal\<close> builds in a value of type \<open>any\<close>.\<close>

datatype json =
  JNull | JBool bool | JNumber string | JString string | JArray "json list"
| JObject "(string \<times> json) list"

text \<open>Errors of the API server, by the reasons the code tells apart, with their texts.\<close>

datatype api_error = NotFound string | Conflict string | OtherError string

primrec api_text :: "api_error \<Rightarrow> string" where
  "api_text (NotFound m) = m"
| "api_text (Conflict m) = m"
| "api_text (OtherError m) = m"

primrec IsNotFound :: "api_error \<Rightarrow> bool" where
  "IsNotFound (NotFound m) = True"
| "IsNotFound (Conflict m) = False"
| "IsNotFound (OtherError m) = False"

record NamespacedName =
  nn_Namespace :: string
  nn_Name :: string

text \<open>The fields of \<open>rest.Config\<close> that the code sets when they are nil, and the rest of it.\<close>

record rest_Config =
  GroupVersion :: "(string \<times> string) option"
  NegotiatedSerializer :: "string option"
  rest_Other :: string

record event =
  ev_Type :: string
  ev_Reason :: string
  ev_Action :: string
  ev_Note :: string

datatype action =
  DidGet NamespacedName | DidListNodes | DidGetRaw string | DidRecord event
| DidStatusUpdate DNSClass

record 'w st =
  world :: 'w
  trace :: "action list"

record 'w Reconciler =
  client_Get :: "NamespacedName \<Rightarrow> 'w \<Rightarrow> (api_error + DNSClass) \<times> 'w"
  client_StatusUpdate :: "DNSClass \<Rightarrow> 'w \<Rightarrow> api_error option \<times> 'w"
  client_ListNodes :: "'w \<Rightarrow> (string + string list) \<times> 'w"
  Config :: rest_Config
  RESTClientFor :: "rest_Config \<Rightarrow> string option"
  rest_GetRaw :: "rest_Config \<Rightarrow> string \<Rightarrow> 'w \<Rightarrow> (string + string) \<times> 'w"
  json_Unmarshal :: "string \<Rightarrow> string + (string \<rightharpoonup> json)"
  time_Now :: "'w \<Rightarrow> int \<times> 'w"
  SetStatusCondition :: "Condition \<Rightarrow> Condition list \<Rightarrow> Condition list"
  RetryOnConflict :: "('w st \<Rightarrow> api_error option \<times> 'w st) \<Rightarrow> 'w st \<Rightarrow> api_error option \<times> 'w st"

text \<open>A call: the client acts on the world, the trace records it.\<close>

definition call :: "action \<Rightarrow> ('w \<Rightarrow> 'a \<times> 'w) \<Rightarrow> 'w st \<Rightarrow> 'a \<times> 'w st" where
  "call a f s = (case f (world s) of (x, w) \<Rightarrow> (x, s\<lparr>world := w, trace := trace s @ [a]\<rparr>))"

definition now :: "'w Reconciler \<Rightarrow> 'w st \<Rightarrow> int \<times> 'w st" where
  "now r s = (case time_Now r (world s) of (t, w) \<Rightarrow> (t, s\<lparr>world := w\<rparr>))"

definition Eventf :: "string \<Rightarrow> string \<Rightarrow> string \<Rightarrow> string \<Rightarrow> 'w st \<Rightarrow> 'w st" where
  "Eventf ty reason act note s =
     s\<lparr>trace := trace s @ [DidRecord \<lparr>ev_Type = ty, ev_Reason = reason, ev_Action = act, ev_Note = note\<rparr>]\<rparr>"

section \<open>Discovery\<close>

definition prepare_config :: "rest_Config \<Rightarrow> rest_Config" where
  "prepare_config c =
     (let c = (if GroupVersion c = None then c\<lparr>GroupVersion := Some ([], ''v1'')\<rparr> else c);
          c = (if NegotiatedSerializer c = None
               then c\<lparr>NegotiatedSerializer := Some ''WithoutConversionCodecFactory''\<rparr> else c)
      in c)"

definition configz_url :: "string \<Rightarrow> string" where
  "configz_url node = ''/api/v1/nodes/'' @ node @ ''/proxy/configz''"

definition kubelet_config :: "(string \<rightharpoonup> json) \<Rightarrow> string + (string \<rightharpoonup> json)" where
  "kubelet_config config =
     (case config ''kubeletconfig'' of
        Some (JObject fs) \<Rightarrow> Inr (map_of fs)
      | _ \<Rightarrow> Inl ''kubeletconfig field is not a map or is not found'')"

definition fetchNodeProxyConfigz :: "'w Reconciler \<Rightarrow> 'w st \<Rightarrow> (string + (string \<rightharpoonup> json)) \<times> 'w st" where
  "fetchNodeProxyConfigz r s =
     (case call DidListNodes (client_ListNodes r) s of
        (Inl err, s) \<Rightarrow> (Inl (''failed to list nodes: '' @ err), s)
      | (Inr [], s) \<Rightarrow> (Inl ''no nodes available to fetch config'', s)
      | (Inr (selectedNode # _), s) \<Rightarrow>
          (let copyConfig = prepare_config (Config r)
           in case RESTClientFor r copyConfig of
                Some err \<Rightarrow> (Inl (''failed to create REST client: '' @ err), s)
              | None \<Rightarrow>
                  (let url = configz_url selectedNode
                   in case call (DidGetRaw url) (rest_GetRaw r copyConfig url) s of
                        (Inl err, s) \<Rightarrow>
                          (Inl (''failed to get raw data from node '' @ selectedNode @ '': '' @ err), s)
                      | (Inr rawData, s) \<Rightarrow>
                          (case json_Unmarshal r rawData of
                             Inl err \<Rightarrow> (Inl (''failed to unmarshal config: '' @ err), s)
                           | Inr config \<Rightarrow> (kubelet_config config, s)))))"

text \<open>The dynamic values \<open>extractField\<close> returns.\<close>

datatype any = AString string | AStrings "string list"

fun convert_elements :: "string \<Rightarrow> nat \<Rightarrow> json list \<Rightarrow> string list \<Rightarrow> string + string list" where
  "convert_elements fieldName i [] acc = Inr acc"
| "convert_elements fieldName i (v # vs) acc =
     (case v of
        JString str \<Rightarrow> convert_elements fieldName (Suc i) vs (acc @ [str])
      | _ \<Rightarrow> Inl (''element at index '' @ FormatUint i @ '' in '' @ fieldName @ '' is not a string''))"

definition convert_field :: "string \<Rightarrow> string \<Rightarrow> (string \<rightharpoonup> json) \<Rightarrow> string + any" where
  "convert_field fieldName targetType data =
     (case data fieldName of
        None \<Rightarrow> Inl (fieldName @ '' field is not found'')
      | Some fieldValue \<Rightarrow>
          (if targetType = ''string'' then
             (case fieldValue of
                JString v \<Rightarrow> Inr (AString v)
              | _ \<Rightarrow> Inl (fieldName @ '' field is not a string''))
           else if targetType = ''[]string'' then
             (case fieldValue of
                JArray vs \<Rightarrow>
                  (case convert_elements fieldName 0 vs [] of
                     Inl err \<Rightarrow> Inl err | Inr strs \<Rightarrow> Inr (AStrings strs))
              | _ \<Rightarrow> Inl (fieldName @ '' field is not a slice''))
           else Inl (''unsupported target type: '' @ targetType)))"

definition extractField ::
  "'w Reconciler \<Rightarrow> string \<Rightarrow> string \<Rightarrow> 'w st \<Rightarrow> (string + any) \<times> 'w st" where
  "extractField r fieldName targetType s =
     (case fetchNodeProxyConfigz r s of
        (Inl err, s) \<Rightarrow> (Inl err, s)
      | (Inr data, s) \<Rightarrow> (convert_field fieldName targetType data, s))"

text \<open>The type assertions on the result; a wrong type panics.\<close>

primrec as_string :: "any \<Rightarrow> string outcome" where
  "as_string (AString v) = Ret v"
| "as_string (AStrings vs) = Panic"

primrec as_strings :: "any \<Rightarrow> string list outcome" where
  "as_strings (AString v) = Panic"
| "as_strings (AStrings vs) = Ret vs"

text \<open>
  \<open>discoverFields\<close>: the fields not discovered with the message, the discovered fields, which
  the Go function updates through a pointer, and the state. The map of undiscovered fields is
  nil when there is none.
\<close>

record discovery =
  undiscovered :: "(string \<rightharpoonup> bool) option"
  disc_message :: string
  disc_fields :: DiscoveredFields

definition discover_domain ::
  "(string + any) \<Rightarrow> (string \<rightharpoonup> bool) \<times> string list \<times> DiscoveredFields \<Rightarrow>
     ((string \<rightharpoonup> bool) \<times> string list \<times> DiscoveredFields) outcome" where
  "discover_domain res d =
     (case d of (missing, messages, df) \<Rightarrow>
        (case res of
           Inl err \<Rightarrow> Ret (missing(''clusterDomain'' \<mapsto> True), messages @ [err], df)
         | Inr v \<Rightarrow> obind (as_string v) (\<lambda>domain. Ret (missing, messages, df\<lparr>df_ClusterDomain := domain\<rparr>))))"

definition discover_nameservers ::
  "(string + any) \<Rightarrow> (string \<rightharpoonup> bool) \<times> string list \<times> DiscoveredFields \<Rightarrow>
     ((string \<rightharpoonup> bool) \<times> string list \<times> DiscoveredFields) outcome" where
  "discover_nameservers res d =
     (case d of (missing, messages, df) \<Rightarrow>
        (case res of
           Inl err \<Rightarrow> Ret (missing(''nameservers'' \<mapsto> True), messages @ [err], df)
         | Inr v \<Rightarrow> obind (as_strings v) (\<lambda>ns. Ret (missing, messages, df\<lparr>df_Nameservers := Some ns\<rparr>))))"

definition conclude_discovery ::
  "(string \<rightharpoonup> bool) \<times> string list \<times> DiscoveredFields \<Rightarrow> discovery" where
  "conclude_discovery d =
     (case d of (missing, messageSlice, df) \<Rightarrow>
        (if length messageSlice > 0
         then \<lparr>undiscovered = Some missing,
               disc_message = ''discovery failed for the following fields: ''
                 @ strings_Join messageSlice ''; '',
               disc_fields = df\<rparr>
         else \<lparr>undiscovered = None, disc_message = [], disc_fields = df\<rparr>))"

definition discoverFields ::
  "'w Reconciler \<Rightarrow> DiscoveredFields \<Rightarrow> 'w st \<Rightarrow> (discovery \<times> 'w st) outcome" where
  "discoverFields r df s =
     (case extractField r ''clusterDomain'' ''string'' s of (res1, s1) \<Rightarrow>
        obind (discover_domain res1 (Map.empty, [], df)) (\<lambda>d1.
          case extractField r ''clusterDNS'' ''[]string'' s1 of (res2, s2) \<Rightarrow>
            obind (discover_nameservers res2 d1) (\<lambda>d2. Ret (conclude_discovery d2, s2))))"

section \<open>Writing the status\<close>

text \<open>One attempt of the closure that \<open>writeStatus\<close> hands to \<open>RetryOnConflict\<close>.\<close>

definition write_attempt :: "'w Reconciler \<Rightarrow> DNSClass \<Rightarrow> 'w st \<Rightarrow> api_error option \<times> 'w st" where
  "write_attempt r dnsclass s =
     (let nn = \<lparr>nn_Namespace = dc_Namespace dnsclass, nn_Name = dc_Name dnsclass\<rparr>
      in case call (DidGet nn) (client_Get r nn) s of
           (Inl err, s) \<Rightarrow> (Some err, s)
         | (Inr dc, s) \<Rightarrow>
             (let dc = dc\<lparr>dc_Status := dc_Status dnsclass\<rparr>
              in call (DidStatusUpdate dc) (client_StatusUpdate r dc) s))"

definition writeStatus :: "'w Reconciler \<Rightarrow> DNSClass \<Rightarrow> 'w st \<Rightarrow> string option \<times> 'w st" where
  "writeStatus r dnsclass s =
     (case RetryOnConflict r (write_attempt r dnsclass) s of
        (None, s) \<Rightarrow> (None, s)
      | (Some err, s) \<Rightarrow>
          (if IsNotFound err then (None, s)
           else (Some (''update status: '' @ api_text err), s)))"

definition mk_condition ::
  "string \<Rightarrow> ConditionStatus \<Rightarrow> string \<Rightarrow> string \<Rightarrow> int \<Rightarrow> Condition" where
  "mk_condition ty status message reason t =
     \<lparr>cond_Type = ty, cond_Status = status, cond_Message = message, cond_Reason = reason,
      cond_LastTransitionTime = t\<rparr>"

definition set_condition :: "'w Reconciler \<Rightarrow> Condition \<Rightarrow> DNSClass \<Rightarrow> DNSClass" where
  "set_condition r condition dnsclass =
     dnsclass\<lparr>dc_Status := (dc_Status dnsclass)
       \<lparr>Conditions := SetStatusCondition r condition (Conditions (dc_Status dnsclass))\<rparr>\<rparr>"

definition set_state :: "string \<Rightarrow> DNSClass \<Rightarrow> DNSClass" where
  "set_state state dnsclass = dnsclass\<lparr>dc_Status := (dc_Status dnsclass)\<lparr>State := state\<rparr>\<rparr>"

definition updateStatus ::
  "'w Reconciler \<Rightarrow> string option \<Rightarrow> string \<Rightarrow> DNSClass \<Rightarrow> 'w st \<Rightarrow> string option \<times> 'w st" where
  "updateStatus r rErr message dnsclass s =
     (case now r s of (t, s) \<Rightarrow>
        (let condition = mk_condition StateInit ConditionUnknown message ''ReconcileStart'' t
         in case rErr of
              Some err \<Rightarrow>
                (case now r s of (t, s) \<Rightarrow>
                   (let condition = mk_condition StateError ConditionTrue err ''ReconcileError'' t
                    in writeStatus r (set_condition r condition (set_state StateError dnsclass)) s))
            | None \<Rightarrow>
                (if State (dc_Status dnsclass) = StateReady then
                   (case now r s of (t, s) \<Rightarrow>
                      (let condition = mk_condition StateReady ConditionTrue message ''ReconcileCompleted'' t
                       in writeStatus r (set_condition r condition dnsclass) s))
                 else writeStatus r (set_condition r condition dnsclass) s)))"

section \<open>Reconcile\<close>

text \<open>
  The discovery branch of \<open>Reconcile\<close>. \<open>discoveredFields\<close> is the pointer held by the status
  when that is not nil, so what \<open>discoverFields\<close> writes is already in the status, on the error
  path too; a fresh object is stored only on success. The result is the object, the status
  message and the error, if a required key was not discovered.
\<close>

definition required_missing :: "(string \<rightharpoonup> bool) option \<Rightarrow> string list \<Rightarrow> bool" where
  "required_missing und keys =
     (case und of
        None \<Rightarrow> False
      | Some m \<Rightarrow> list_ex (\<lambda>key. case m key of None \<Rightarrow> False | Some b \<Rightarrow> b) keys)"

definition set_discovered :: "DiscoveredFields option \<Rightarrow> DNSClass \<Rightarrow> DNSClass" where
  "set_discovered df dnsclass =
     dnsclass\<lparr>dc_Status := (dc_Status dnsclass)\<lparr>st_DiscoveredFields := df\<rparr>\<rparr>"

definition reconcile_discovery ::
  "'w Reconciler \<Rightarrow> DNSClass \<Rightarrow> 'w st \<Rightarrow> ((DNSClass \<times> string \<times> string option) \<times> 'w st) outcome" where
  "reconcile_discovery r dnsclass s =
     (let pointer = st_DiscoveredFields (dc_Status dnsclass);
          discoveredFields = (case pointer of None \<Rightarrow> empty_DiscoveredFields | Some df \<Rightarrow> df)
      in obind (discoverFields r discoveredFields s) (\<lambda>(d, s).
           let dnsclass = (case pointer of
                 None \<Rightarrow> dnsclass | Some _ \<Rightarrow> set_discovered (Some (disc_fields d)) dnsclass)
           in if required_missing (undiscovered d) (ExtractTemplateKeysRegex dnsclass)
              then Ret ((dnsclass, disc_message d, Some (disc_message d)),
                Eventf ''Warning'' ''Failed'' ''StopReconciling''
                  ''DNSClass will be unavailable due to missing required template keys'' s)
              else
                (let dnsclass =
                   (if Some (disc_fields d) \<noteq> st_DiscoveredFields (dc_Status dnsclass)
                    then set_discovered (Some (disc_fields d)) dnsclass else dnsclass)
                 in Ret ((dnsclass, disc_message d, None), s))))"

text \<open>
  The body between the registration of the deferred status update and the return: the object,
  the status message and the error that the deferred function sees.
\<close>

definition reconcile_body ::
  "'w Reconciler \<Rightarrow> DNSClass \<Rightarrow> 'w st \<Rightarrow> ((DNSClass \<times> string \<times> string option) \<times> 'w st) outcome" where
  "reconcile_body r dnsclass s =
     obind
       (if DNSPolicy (dc_Spec dnsclass) = DNSNone
        then reconcile_discovery r dnsclass s
        else Ret ((dnsclass, ''Initialization in progress'', None), s))
       (\<lambda>((dnsclass, statusMessage, err), s).
          case err of
            Some e \<Rightarrow> Ret ((dnsclass, statusMessage, Some e), s)
          | None \<Rightarrow>
              Ret ((set_state StateReady dnsclass, ''Ready'', None),
                Eventf ''Normal'' ''Successful'' ''StopReconciling''
                  ''Reconciliation successfully completed'' s))"

datatype go_error = GetError api_error | DiscoveryError string

text \<open>
  \<open>Reconcile\<close>: the returned error and the state. The error of the deferred status update is
  only logged.
\<close>

definition Reconcile ::
  "'w Reconciler \<Rightarrow> NamespacedName \<Rightarrow> 'w st \<Rightarrow> (go_error option \<times> 'w st) outcome" where
  "Reconcile r req s =
     (case call (DidGet req) (client_Get r req) s of
        (Inl err, s) \<Rightarrow>
          (if IsNotFound err then Ret (None, s) else Ret (Some (GetError err), s))
      | (Inr dnsclass, s) \<Rightarrow>
          (let s = Eventf ''Normal'' ''Reconciling'' ''StartReconciling'' ''Reconciliation started'' s;
               dnsclass = (if State (dc_Status dnsclass) = []
                           then set_state StateInit dnsclass else dnsclass)
           in obind (reconcile_body r dnsclass s) (\<lambda>((dnsclass, statusMessage, err), s).
                case updateStatus r err statusMessage dnsclass s of
                  (logged, s) \<Rightarrow> Ret (map_option DiscoveryError err, s))))"

text \<open>
  The error of the deferred status update, which the run hands to the logger and to nobody else;
  \<open>None\<close> when the update arrived, the class was gone, or the run did not get so far.
\<close>

definition logged_error :: "'w Reconciler \<Rightarrow> NamespacedName \<Rightarrow> 'w st \<Rightarrow> string option" where
  "logged_error r req s =
     (case call (DidGet req) (client_Get r req) s of
        (Inl err, s) \<Rightarrow> None
      | (Inr dnsclass, s) \<Rightarrow>
          (let s = Eventf ''Normal'' ''Reconciling'' ''StartReconciling'' ''Reconciliation started'' s;
               dnsclass = (if State (dc_Status dnsclass) = []
                           then set_state StateInit dnsclass else dnsclass)
           in case reconcile_body r dnsclass s of
                Panic \<Rightarrow> None
              | Ret ((dnsclass, statusMessage, err), s) \<Rightarrow> fst (updateStatus r err statusMessage dnsclass s)))"

section \<open>Watch events\<close>

text \<open>
  The filter on events: the objects' generations are all it reads. A generic event, which nothing
  sends to this controller, passes, as the embedded \<open>predicate.Funcs\<close> lets it.
\<close>

datatype watch_event =
  CreateEvent DNSClass | UpdateEvent DNSClass DNSClass | DeleteEvent DNSClass | GenericEvent DNSClass

fun dnsClassPredicate :: "watch_event \<Rightarrow> bool" where
  "dnsClassPredicate (CreateEvent obj) = True"
| "dnsClassPredicate (UpdateEvent objOld objNew) = (dc_Generation objNew \<noteq> dc_Generation objOld)"
| "dnsClassPredicate (DeleteEvent obj) = False"
| "dnsClassPredicate (GenericEvent obj) = True"

text \<open>
  What \<open>SetupWithManager\<close> asks of the manager: a controller for one kind, with the filter on its
  events and a number of workers, whose reconciler is this one.
\<close>

record controller_setup =
  For_kind :: string
  EventFilter :: "watch_event \<Rightarrow> bool"
  MaxConcurrentReconciles :: int

definition SetupWithManager :: "int \<Rightarrow> controller_setup" where
  "SetupWithManager maxConcurrentReconcilesForDNSClassReconciler =
     \<lparr>For_kind = ''DNSClass'', EventFilter = dnsClassPredicate,
      MaxConcurrentReconciles = maxConcurrentReconcilesForDNSClassReconciler\<rparr>"

section \<open>What the collaborators promise\<close>

text \<open>
  \<open>retry.RetryOnConflict\<close> runs its function again while it returns a conflict, a bounded number
  of times, and returns the last result. How often it tries may depend on anything.
\<close>

fun attempts :: "nat \<Rightarrow> ('s \<Rightarrow> api_error option \<times> 's) \<Rightarrow> 's \<Rightarrow> api_error option \<times> 's" where
  "attempts 0 f s = f s"
| "attempts (Suc n) f s =
     (case f s of
        (Some (Conflict m), s') \<Rightarrow> attempts n f s'
      | (res, s') \<Rightarrow> (res, s'))"

definition retry_contract :: "'w Reconciler \<Rightarrow> bool" where
  "retry_contract r \<longleftrightarrow> (\<forall>f s. \<exists>n. RetryOnConflict r f s = attempts n f s)"

text \<open>
  \<open>meta.SetStatusCondition\<close> leaves one condition of the given type, with the given status,
  message and reason, and the conditions of the other types as they were.
\<close>

definition condition_contract :: "'w Reconciler \<Rightarrow> bool" where
  "condition_contract r \<longleftrightarrow>
     (\<forall>c cs. (\<exists>c' \<in> set (SetStatusCondition r c cs). cond_Type c' = cond_Type c \<and>
          cond_Status c' = cond_Status c \<and> cond_Message c' = cond_Message c \<and>
          cond_Reason c' = cond_Reason c) \<and>
        (\<forall>d. cond_Type d \<noteq> cond_Type c \<longrightarrow> (d \<in> set (SetStatusCondition r c cs) \<longleftrightarrow> d \<in> set cs)))"

lemma attempts_invariant:
  assumes "\<And>s res s'. I s \<Longrightarrow> f s = (res, s') \<Longrightarrow> I s'"
  shows "I s \<Longrightarrow> attempts n f s = (res, s') \<Longrightarrow> I s'"
proof (induction n arbitrary: s)
  case 0
  then show ?case using assms by simp
next
  case (Suc n)
  obtain res1 s1 where f: "f s = (res1, s1)" by (cases "f s")
  with Suc.prems(1) have "I s1" using assms by blast
  then show ?case using Suc f
    by (auto split: option.splits api_error.splits)
qed

section \<open>What an operation adds to the trace\<close>

text \<open>
  What an action does to the world, and the runs of an operation: sequences of actions that
  satisfy a predicate, and of readings of the clock.
\<close>

primrec effect :: "'w Reconciler \<Rightarrow> action \<Rightarrow> 'w \<Rightarrow> 'w" where
  "effect r (DidGet nn) w = snd (client_Get r nn w)"
| "effect r DidListNodes w = snd (client_ListNodes r w)"
| "effect r (DidGetRaw url) w = snd (rest_GetRaw r (prepare_config (Config r)) url w)"
| "effect r (DidRecord e) w = w"
| "effect r (DidStatusUpdate dc) w = snd (client_StatusUpdate r dc w)"

definition acts :: "'w Reconciler \<Rightarrow> (action \<Rightarrow> bool) \<Rightarrow> 'w st \<Rightarrow> 'w st \<Rightarrow> bool" where
  "acts r P s s' \<longleftrightarrow>
     (\<exists>a. P a \<and> trace s' = trace s @ [a] \<and> world s' = effect r a (world s)) \<or>
     (trace s' = trace s \<and> world s' = snd (time_Now r (world s)))"

definition adds :: "'w Reconciler \<Rightarrow> (action \<Rightarrow> bool) \<Rightarrow> 'w st \<Rightarrow> 'w st \<Rightarrow> bool" where
  "adds r P = (acts r P)\<^sup>*\<^sup>*"

named_theorems adds_intros "what single operations add to the trace"

lemma adds_refl [simp, intro]: "adds r P s s"
  by (simp add: adds_def)

lemma adds_trans [trans]: "adds r P s t \<Longrightarrow> adds r P t u \<Longrightarrow> adds r P s u"
  unfolding adds_def by (rule rtranclp_trans)

lemma adds_mono: "adds r P s t \<Longrightarrow> (\<And>a. P a \<Longrightarrow> Q a) \<Longrightarrow> adds r Q s t"
  unfolding adds_def by (erule rtranclp_mono [THEN predicate2D, rotated]) (auto simp: acts_def)

lemma adds_trace:
  assumes "adds r P s t"
  shows "\<exists>as. trace t = trace s @ as \<and> (\<forall>a \<in> set as. P a)"
  using assms unfolding adds_def
proof (induction rule: rtranclp_induct)
  case base
  show ?case by simp
next
  case (step u t)
  then obtain as where "trace u = trace s @ as" "\<forall>a \<in> set as. P a" by blast
  with step(2) show ?case
    unfolding acts_def by (auto intro: exI [of _ as] exI [of _ "as @ [a]" for a])
qed

lemma adds_world:
  assumes "adds r P s t" and "J (world s)"
    and "\<And>a w. P a \<Longrightarrow> J w \<Longrightarrow> J (effect r a w)" and "\<And>w. J w \<Longrightarrow> J (snd (time_Now r w))"
  shows "J (world t)"
  using assms(1,2) unfolding adds_def
  by (induction rule: rtranclp_induct) (auto simp: acts_def assms(3,4))

lemma adds_call [adds_intros]:
  "call a f s = (x, s') \<Longrightarrow> P a \<Longrightarrow> (\<And>w. effect r a w = snd (f w)) \<Longrightarrow> adds r P s s'"
  unfolding adds_def
  by (rule r_into_rtranclp) (auto simp: call_def acts_def split: prod.splits)

lemma adds_now [adds_intros]: "now r s = (t, s') \<Longrightarrow> adds r P s s'"
  unfolding adds_def
  by (rule r_into_rtranclp) (auto simp: now_def acts_def split: prod.splits)

lemma adds_Eventf [adds_intros]: "(\<And>e. P (DidRecord e)) \<Longrightarrow> adds r P s (Eventf ty reason act note s)"
  unfolding adds_def
  by (rule r_into_rtranclp) (simp add: Eventf_def acts_def)

text \<open>The actions that only read the cluster.\<close>

fun is_discovery :: "action \<Rightarrow> bool" where
  "is_discovery DidListNodes = True"
| "is_discovery (DidGetRaw url) = True"
| "is_discovery a = False"

lemma fetch_adds [adds_intros]: "fetchNodeProxyConfigz r s = (x, s') \<Longrightarrow> adds r is_discovery s s'"
proof -
  assume a: "fetchNodeProxyConfigz r s = (x, s')"
  obtain nodes s1 where c: "call DidListNodes (client_ListNodes r) s = (nodes, s1)"
    by (cases "call DidListNodes (client_ListNodes r) s")
  then have 1: "adds r is_discovery s s1" by (auto intro: adds_call)
  show ?thesis
  proof (cases "\<exists>node rest. nodes = Inr (node # rest) \<and> RESTClientFor r (prepare_config (Config r)) = None")
    case False
    with a c have "s' = s1"
      by (auto simp: fetchNodeProxyConfigz_def Let_def split: sum.splits list.splits option.splits)
    with 1 show ?thesis by simp
  next
    case True
    then obtain node rest where n: "nodes = Inr (node # rest)"
      "RESTClientFor r (prepare_config (Config r)) = None" by blast
    obtain raw s2 where g: "call (DidGetRaw (configz_url node))
        (rest_GetRaw r (prepare_config (Config r)) (configz_url node)) s1 = (raw, s2)"
      by (cases "call (DidGetRaw (configz_url node))
        (rest_GetRaw r (prepare_config (Config r)) (configz_url node)) s1")
    then have "adds r is_discovery s1 s2" by (auto intro: adds_call)
    moreover from a c n g have "s' = s2"
      by (auto simp: fetchNodeProxyConfigz_def Let_def split: sum.splits)
    ultimately show ?thesis using 1 by (blast intro: adds_trans)
  qed
qed

lemma extractField_adds [adds_intros]: "extractField r f ty s = (x, s') \<Longrightarrow> adds r is_discovery s s'"
  by (auto simp: extractField_def dest: fetch_adds split: prod.splits sum.splits)

text \<open>
  What one attempt sends: the object it has just read, with another status.
\<close>

definition fresh_write :: "'w Reconciler \<Rightarrow> DNSClass \<Rightarrow> DNSClass \<Rightarrow> bool" where
  "fresh_write r dnsclass w \<longleftrightarrow>
     (\<exists>w0 w1 dc. client_Get r \<lparr>nn_Namespace = dc_Namespace dnsclass, nn_Name = dc_Name dnsclass\<rparr> w0 =
        (Inr dc, w1) \<and> w = dc\<lparr>dc_Status := dc_Status w\<rparr>)"

lemma write_attempt_adds:
  assumes "write_attempt r dnsclass s = (x, s')"
  shows "adds r (\<lambda>a. (\<exists>nn. a = DidGet nn) \<or>
    (\<exists>w. a = DidStatusUpdate w \<and> dc_Status w = dc_Status dnsclass \<and> fresh_write r dnsclass w)) s s'"
proof -
  let ?nn = "\<lparr>nn_Namespace = dc_Namespace dnsclass, nn_Name = dc_Name dnsclass\<rparr>"
  let ?P = "\<lambda>a. (\<exists>nn. a = DidGet nn) \<or> (\<exists>w. a = DidStatusUpdate w \<and> dc_Status w = dc_Status dnsclass \<and> fresh_write r dnsclass w)"
  obtain y s1 where c: "call (DidGet ?nn) (client_Get r ?nn) s = (y, s1)"
    by (cases "call (DidGet ?nn) (client_Get r ?nn) s")
  then have 1: "adds r ?P s s1" by (auto intro: adds_call)
  show ?thesis
  proof (cases y)
    case (Inl e)
    with assms c 1 show ?thesis by (simp add: write_attempt_def)
  next
    case (Inr dc)
    with assms c have "call (DidStatusUpdate (dc\<lparr>dc_Status := dc_Status dnsclass\<rparr>))
        (client_StatusUpdate r (dc\<lparr>dc_Status := dc_Status dnsclass\<rparr>)) s1 = (x, s')"
      by (simp add: write_attempt_def Let_def)
    moreover have "fresh_write r dnsclass (dc\<lparr>dc_Status := dc_Status dnsclass\<rparr>)"
      using c Inr by (auto simp: fresh_write_def call_def split: prod.splits)
    ultimately have "adds r ?P s1 s'" using adds_call [of _ _ s1 x s' ?P] by auto
    with 1 show ?thesis by (rule adds_trans)
  qed
qed

lemma writeStatus_adds:
  assumes "retry_contract r" and "writeStatus r dnsclass s = (x, s')"
  shows "adds r (\<lambda>a. (\<exists>nn. a = DidGet nn) \<or>
    (\<exists>w. a = DidStatusUpdate w \<and> dc_Status w = dc_Status dnsclass \<and> fresh_write r dnsclass w)) s s'"
    (is "adds r ?P s s'")
proof -
  obtain res where "RetryOnConflict r (write_attempt r dnsclass) s = (res, s')"
    using assms(2) by (auto simp: writeStatus_def split: prod.splits option.splits if_splits)
  with assms(1) obtain n where a: "attempts n (write_attempt r dnsclass) s = (res, s')"
    unfolding retry_contract_def by metis
  show ?thesis
  proof (rule attempts_invariant [where I = "adds r ?P s", OF _ adds_refl a])
    fix t res1 t'
    assume "adds r ?P s t" "write_attempt r dnsclass t = (res1, t')"
    then show "adds r ?P s t'" using write_attempt_adds adds_trans by blast
  qed
qed

text \<open>The status that \<open>updateStatus\<close> writes.\<close>

definition status_condition :: "string option \<Rightarrow> string \<Rightarrow> DNSClass \<Rightarrow> int \<Rightarrow> Condition" where
  "status_condition rErr message dnsclass t =
     (case rErr of
        Some err \<Rightarrow> mk_condition StateError ConditionTrue err ''ReconcileError'' t
      | None \<Rightarrow>
          (if State (dc_Status dnsclass) = StateReady
           then mk_condition StateReady ConditionTrue message ''ReconcileCompleted'' t
           else mk_condition StateInit ConditionUnknown message ''ReconcileStart'' t))"

definition written_status ::
  "'w Reconciler \<Rightarrow> string option \<Rightarrow> string \<Rightarrow> DNSClass \<Rightarrow> DNSClassStatus \<Rightarrow> bool" where
  "written_status r rErr message dnsclass status \<longleftrightarrow>
     State status = (if rErr = None then State (dc_Status dnsclass) else StateError) \<and>
     st_DiscoveredFields status = st_DiscoveredFields (dc_Status dnsclass) \<and>
     (\<exists>t. Conditions status =
        SetStatusCondition r (status_condition rErr message dnsclass t) (Conditions (dc_Status dnsclass)))"

lemma written_status_cases:
  "written_status r None message dnsclass
     (dc_Status (set_condition r (status_condition None message dnsclass t) dnsclass))"
  "written_status r (Some err) message dnsclass
     (dc_Status (set_condition r (status_condition (Some err) message dnsclass t)
        (set_state StateError dnsclass)))"
  by (auto simp: written_status_def set_condition_def set_state_def)

text \<open>Equality up to the status.\<close>

definition same_object :: "DNSClass \<Rightarrow> DNSClass \<Rightarrow> bool" where
  "same_object dc dc' \<longleftrightarrow>
     dc_GroupKind dc' = dc_GroupKind dc \<and> dc_Name dc' = dc_Name dc \<and>
     dc_Namespace dc' = dc_Namespace dc \<and> dc_Generation dc' = dc_Generation dc \<and>
     dc_Spec dc' = dc_Spec dc"

lemma same_object_simps [simp]:
  "same_object dc dc"
  "same_object dc (set_state st dc') = same_object dc dc'"
  "same_object dc (set_discovered df dc') = same_object dc dc'"
  "same_object dc (set_condition r c dc') = same_object dc dc'"
  "same_object (set_state st dc) dc' = same_object dc dc'"
  "same_object dc (dc'\<lparr>dc_Status := x\<rparr>) = same_object dc dc'"
  by (simp_all add: same_object_def set_state_def set_discovered_def set_condition_def)

lemma fresh_write_same: "same_object dc dc' \<Longrightarrow> fresh_write r dc' w = fresh_write r dc w"
  by (simp add: same_object_def fresh_write_def)

lemma same_object_trans: "same_object dc dc' \<Longrightarrow> same_object dc' dc'' \<Longrightarrow> same_object dc dc''"
  by (simp add: same_object_def)

lemma updateStatus_cases:
  assumes "updateStatus r rErr message dnsclass s = (x, s')"
  obtains dc s1 where "writeStatus r dc s1 = (x, s')" "adds r (\<lambda>_. False) s s1"
    "written_status r rErr message dnsclass (dc_Status dc)" "same_object dnsclass dc"
proof -
  obtain t1 s1 where n1: "now r s = (t1, s1)" by (cases "now r s")
  obtain t2 s2 where n2: "now r s1 = (t2, s2)" by (cases "now r s1")
  have a1: "adds r (\<lambda>_. False) s s1" and a2: "adds r (\<lambda>_. False) s s2"
    using adds_now [OF n1] adds_now [OF n2] adds_trans by blast+
  show ?thesis
  proof (cases rErr)
    case (Some err)
    have "writeStatus r (set_condition r (status_condition rErr message dnsclass t2)
        (set_state StateError dnsclass)) s2 = (x, s')"
      using assms n1 n2 Some by (simp add: updateStatus_def status_condition_def Let_def)
    from that [OF this a2] show ?thesis
      unfolding Some by (simp only: written_status_cases(2) same_object_simps)
  next
    case None
    show ?thesis
    proof (cases "State (dc_Status dnsclass) = StateReady")
      case True
      have "writeStatus r (set_condition r (status_condition rErr message dnsclass t2) dnsclass) s2 = (x, s')"
        using assms n1 n2 None True by (simp add: updateStatus_def status_condition_def Let_def)
      from that [OF this a2] show ?thesis
        unfolding None by (simp only: written_status_cases(1) same_object_simps)
    next
      case False
      have "writeStatus r (set_condition r (status_condition rErr message dnsclass t1) dnsclass) s1 = (x, s')"
        using assms n1 None False by (simp add: updateStatus_def status_condition_def Let_def)
      from that [OF this a1] show ?thesis
        unfolding None by (simp only: written_status_cases(1) same_object_simps)
    qed
  qed
qed

lemma updateStatus_adds:
  assumes "retry_contract r" and "updateStatus r rErr message dnsclass s = (x, s')"
  shows "adds r (\<lambda>a. (\<exists>nn. a = DidGet nn) \<or>
    (\<exists>w. a = DidStatusUpdate w \<and> written_status r rErr message dnsclass (dc_Status w) \<and>
       fresh_write r dnsclass w)) s s'"
    (is "adds r ?P s s'")
proof -
  from assms(2) obtain dc s1 where w: "writeStatus r dc s1 = (x, s')"
    and a: "adds r (\<lambda>_. False) s s1" and st: "written_status r rErr message dnsclass (dc_Status dc)"
      "same_object dnsclass dc"
    by (rule updateStatus_cases)
  have "adds r ?P s s1" using a by (rule adds_mono) simp
  moreover have "adds r ?P s1 s'"
    using writeStatus_adds [OF assms(1) w] by (rule adds_mono) (use st fresh_write_same in \<open>auto simp: fresh_write_same [OF st(2)]\<close>)
  ultimately show ?thesis by (rule adds_trans)
qed

section \<open>Lemmas on discovery\<close>

lemma convert_elements_ok:
  "convert_elements f i vs acc = Inr strs \<longleftrightarrow> (\<exists>ws. vs = map JString ws \<and> strs = acc @ ws)"
proof (induction f i vs acc rule: convert_elements.induct)
  case (1 f i acc)
  then show ?case by auto
next
  case (2 f i v vs acc)
  show ?case
  proof (cases v)
    case (JString w)
    have "(\<exists>ws. JString w # vs = map JString ws \<and> strs = acc @ ws) \<longleftrightarrow>
        (\<exists>ws. vs = map JString ws \<and> strs = (acc @ [w]) @ ws)"
      by (auto simp: Cons_eq_map_conv)
    with 2 [OF JString] JString show ?thesis by simp
  qed (auto simp: Cons_eq_map_conv)
qed

lemma extract_string_type:
  "extractField r f ''string'' s = (Inr v, s') \<Longrightarrow> \<exists>w. v = AString w"
  by (auto simp: extractField_def convert_field_def split: prod.splits sum.splits option.splits
      json.splits)

lemma extract_strings_type:
  "extractField r f ''[]string'' s = (Inr v, s') \<Longrightarrow> \<exists>ws. v = AStrings ws"
  by (auto simp: extractField_def convert_field_def split: prod.splits sum.splits option.splits
      json.splits)

text \<open>The discovered fields after both reads: a failed read keeps the old value.\<close>

definition merged_fields ::
  "DiscoveredFields \<Rightarrow> (string + any) \<Rightarrow> (string + any) \<Rightarrow> DiscoveredFields" where
  "merged_fields df res1 res2 =
     \<lparr>df_Nameservers = (case res2 of Inr (AStrings ns) \<Rightarrow> Some ns | _ \<Rightarrow> df_Nameservers df),
      df_ClusterDomain = (case res1 of Inr (AString d) \<Rightarrow> d | _ \<Rightarrow> df_ClusterDomain df)\<rparr>"

lemma discoverFields_result:
  assumes e1: "extractField r ''clusterDomain'' ''string'' s = (res1, s1)"
    and e2: "extractField r ''clusterDNS'' ''[]string'' s1 = (res2, s2)"
  obtains d where "discoverFields r df s = Ret (d, s2)"
    "disc_fields d = merged_fields df res1 res2"
    "\<And>keys. required_missing (undiscovered d) keys \<longleftrightarrow>
      (''clusterDomain'' \<in> set keys \<and> isl res1) \<or> (''nameservers'' \<in> set keys \<and> isl res2)"
proof -
  obtain m1 d1 l1 where 1: "discover_domain res1 (Map.empty, [], df) = Ret (m1, l1, d1)"
    "m1 = (if isl res1 then [''clusterDomain'' \<mapsto> True] else Map.empty)"
    "l1 \<noteq> [] \<longleftrightarrow> isl res1" "d1 = merged_fields df res1 (Inl [])"
    using extract_string_type [of r _ s] e1
    by (cases res1) (auto simp: discover_domain_def merged_fields_def, fastforce)
  obtain m2 d2 l2 where 2: "discover_nameservers res2 (m1, l1, d1) = Ret (m2, l2, d2)"
    "m2 = (if isl res2 then m1(''nameservers'' \<mapsto> True) else m1)"
    "l2 \<noteq> [] \<longleftrightarrow> l1 \<noteq> [] \<or> isl res2" "d2 = merged_fields df res1 res2"
    using extract_strings_type [of r _ s1] e2 1(4)
    by (cases res2) (auto simp: discover_nameservers_def merged_fields_def, fastforce)
  let ?d = "conclude_discovery (m2, l2, d2)"
  have "discoverFields r df s = Ret (?d, s2)"
    using e1 e2 1(1) 2(1) by (simp add: discoverFields_def)
  moreover have "disc_fields ?d = merged_fields df res1 res2"
    using 2(4) by (simp add: conclude_discovery_def)
  moreover have "required_missing (undiscovered ?d) keys \<longleftrightarrow>
      (''clusterDomain'' \<in> set keys \<and> isl res1) \<or> (''nameservers'' \<in> set keys \<and> isl res2)" for keys
    using 1(2,3) 2(2,3)
    by (auto simp: required_missing_def conclude_discovery_def list_ex_iff split: if_splits)
  ultimately show ?thesis by (rule that)
qed

section \<open>Lemmas on the body of Reconcile\<close>

lemma set_fields [simp]:
  "dc_Spec (set_state st dc) = dc_Spec dc" "dc_Spec (set_discovered df dc) = dc_Spec dc"
  "State (dc_Status (set_state st dc)) = st"
  "State (dc_Status (set_discovered df dc)) = State (dc_Status dc)"
  "st_DiscoveredFields (dc_Status (set_state st dc)) = st_DiscoveredFields (dc_Status dc)"
  "st_DiscoveredFields (dc_Status (set_discovered df dc)) = df"
  "Conditions (dc_Status (set_state st dc)) = Conditions (dc_Status dc)"
  "Conditions (dc_Status (set_discovered df dc)) = Conditions (dc_Status dc)"
  "class_searches (set_state st dc) = class_searches dc"
  "class_searches (set_discovered df dc) = class_searches dc"
  by (simp_all add: set_state_def set_discovered_def class_searches_def)

lemma keys_set_fields [simp]:
  "ExtractTemplateKeysRegex (set_state st dc) = ExtractTemplateKeysRegex dc"
  "ExtractTemplateKeysRegex (set_discovered df dc) = ExtractTemplateKeysRegex dc"
  by (rule tk.keys_of_searches, simp)+

lemma set_discovered_again [simp]:
  "set_discovered df (set_discovered df' dc) = set_discovered df dc"
  by (simp add: set_discovered_def)

text \<open>The two outcomes of the reconciliation of a class with the policy \<open>None\<close>.\<close>

definition some_required_missing :: "DNSClass \<Rightarrow> (string + any) \<Rightarrow> (string + any) \<Rightarrow> bool" where
  "some_required_missing dc res1 res2 \<longleftrightarrow>
     (''clusterDomain'' \<in> set (ExtractTemplateKeysRegex dc) \<and> isl res1) \<or>
     (''nameservers'' \<in> set (ExtractTemplateKeysRegex dc) \<and> isl res2)"

definition known_fields :: "DNSClass \<Rightarrow> DiscoveredFields" where
  "known_fields dc =
     (case st_DiscoveredFields (dc_Status dc) of None \<Rightarrow> empty_DiscoveredFields | Some df \<Rightarrow> df)"

definition failed_object :: "DNSClass \<Rightarrow> (string + any) \<Rightarrow> (string + any) \<Rightarrow> DNSClass" where
  "failed_object dc res1 res2 =
     (if st_DiscoveredFields (dc_Status dc) = None then dc
      else set_discovered (Some (merged_fields (known_fields dc) res1 res2)) dc)"

definition ready_object :: "DNSClass \<Rightarrow> (string + any) \<Rightarrow> (string + any) \<Rightarrow> DNSClass" where
  "ready_object dc res1 res2 =
     set_state StateReady (set_discovered (Some (merged_fields (known_fields dc) res1 res2)) dc)"

lemma reconcile_discovery_eq:
  assumes "discoverFields r (known_fields dc) s = Ret (d, s')"
  shows "reconcile_discovery r dc s =
    (if required_missing (undiscovered d) (ExtractTemplateKeysRegex dc)
     then Ret ((if st_DiscoveredFields (dc_Status dc) = None then dc
                else set_discovered (Some (disc_fields d)) dc, disc_message d, Some (disc_message d)),
       Eventf ''Warning'' ''Failed'' ''StopReconciling''
         ''DNSClass will be unavailable due to missing required template keys'' s')
     else Ret ((set_discovered (Some (disc_fields d)) dc, disc_message d, None), s'))"
proof (cases "st_DiscoveredFields (dc_Status dc)")
  case None
  with assms have "discoverFields r empty_DiscoveredFields s = Ret (d, s')"
    by (simp add: known_fields_def)
  with None show ?thesis by (simp add: reconcile_discovery_def Let_def)
next
  case (Some df)
  with assms have "discoverFields r df s = Ret (d, s')"
    by (simp add: known_fields_def)
  with Some show ?thesis by (simp add: reconcile_discovery_def Let_def)
qed

lemma reconcile_body_none:
  assumes none: "DNSPolicy (dc_Spec dc) = DNSNone"
    and e1: "extractField r ''clusterDomain'' ''string'' s = (res1, s1)"
    and e2: "extractField r ''clusterDNS'' ''[]string'' s1 = (res2, s2)"
  obtains (missing) msg s' where "some_required_missing dc res1 res2"
      "reconcile_body r dc s = Ret ((failed_object dc res1 res2, msg, Some msg), s')"
      "adds r (\<lambda>a. \<exists>e. a = DidRecord e) s2 s'"
  | (ready) s' where "\<not> some_required_missing dc res1 res2"
      "reconcile_body r dc s = Ret ((ready_object dc res1 res2, ''Ready'', None), s')"
      "adds r (\<lambda>a. \<exists>e. a = DidRecord e) s2 s'"
proof (rule discoverFields_result [OF e1 e2, where df = "known_fields dc"])
  fix d
  assume d: "discoverFields r (known_fields dc) s = Ret (d, s2)"
    "disc_fields d = merged_fields (known_fields dc) res1 res2"
    and miss: "\<And>keys. required_missing (undiscovered d) keys \<longleftrightarrow>
        (''clusterDomain'' \<in> set keys \<and> isl res1) \<or> (''nameservers'' \<in> set keys \<and> isl res2)"
  have req: "required_missing (undiscovered d) (ExtractTemplateKeysRegex dc) \<longleftrightarrow>
      some_required_missing dc res1 res2"
    using miss by (simp add: some_required_missing_def)
  show thesis
  proof (cases "some_required_missing dc res1 res2")
    case True
    with d(2) req have "reconcile_body r dc s =
        Ret ((failed_object dc res1 res2, disc_message d, Some (disc_message d)),
          Eventf ''Warning'' ''Failed'' ''StopReconciling''
            ''DNSClass will be unavailable due to missing required template keys'' s2)"
      by (simp add: reconcile_body_def none reconcile_discovery_eq [OF d(1)] failed_object_def)
    from missing [OF True this adds_Eventf] show ?thesis by blast
  next
    case False
    with d(2) req have "reconcile_body r dc s = Ret ((ready_object dc res1 res2, ''Ready'', None),
          Eventf ''Normal'' ''Successful'' ''StopReconciling''
            ''Reconciliation successfully completed'' s2)"
      by (simp add: reconcile_body_def none reconcile_discovery_eq [OF d(1)] ready_object_def)
    from ready [OF False this adds_Eventf] show ?thesis by blast
  qed
qed

lemma reconcile_body_other:
  assumes "DNSPolicy (dc_Spec dc) \<noteq> DNSNone"
  obtains s' where "reconcile_body r dc s = Ret ((set_state StateReady dc, ''Ready'', None), s')"
    "adds r (\<lambda>a. \<exists>e. a = DidRecord e) s s'"
  using assms by (auto simp: reconcile_body_def intro: adds_Eventf)

text \<open>What the body leaves for the deferred status update, in every case.\<close>

definition body_result :: "DNSClass \<Rightarrow> DNSClass \<Rightarrow> string \<Rightarrow> string option \<Rightarrow> bool" where
  "body_result dc dc' msg err \<longleftrightarrow>
     same_object dc dc' \<and> Conditions (dc_Status dc') = Conditions (dc_Status dc) \<and>
     (case err of
        None \<Rightarrow> State (dc_Status dc') = StateReady \<and> msg = ''Ready'' \<and>
          (DNSPolicy (dc_Spec dc) = DNSNone \<longrightarrow> st_DiscoveredFields (dc_Status dc') \<noteq> None)
      | Some e \<Rightarrow> DNSPolicy (dc_Spec dc) = DNSNone \<and> e = msg \<and>
          (st_DiscoveredFields (dc_Status dc') = None \<longleftrightarrow> st_DiscoveredFields (dc_Status dc) = None))"

fun is_read_or_event :: "action \<Rightarrow> bool" where
  "is_read_or_event (DidStatusUpdate dc) = False"
| "is_read_or_event a = True"

lemma reconcile_body_result:
  "\<exists>dc' msg err s'. reconcile_body r dc s = Ret ((dc', msg, err), s') \<and>
     body_result dc dc' msg err \<and> adds r is_read_or_event s s'"
proof (cases "DNSPolicy (dc_Spec dc) = DNSNone")
  case False
  then obtain s' where "reconcile_body r dc s = Ret ((set_state StateReady dc, ''Ready'', None), s')"
    and a: "adds r (\<lambda>a. \<exists>e. a = DidRecord e) s s'"
    by (rule reconcile_body_other)
  moreover have "adds r is_read_or_event s s'" using a by (rule adds_mono) auto
  ultimately show ?thesis using False by (force simp: body_result_def)
next
  case True
  obtain res1 s1 where e1: "extractField r ''clusterDomain'' ''string'' s = (res1, s1)"
    by (cases "extractField r ''clusterDomain'' ''string'' s")
  obtain res2 s2 where e2: "extractField r ''clusterDNS'' ''[]string'' s1 = (res2, s2)"
    by (cases "extractField r ''clusterDNS'' ''[]string'' s1")
  have reads: "adds r is_read_or_event s s2"
    using extractField_adds [OF e1] extractField_adds [OF e2]
    by (elim adds_trans [OF adds_mono adds_mono]) (auto elim: is_discovery.elims)
  have ev: "adds r is_read_or_event s s'" if "adds r (\<lambda>a. \<exists>e. a = DidRecord e) s2 s'" for s'
    using reads by (rule adds_trans) (rule adds_mono [OF that], auto)
  from True e1 e2 show ?thesis
  proof (cases rule: reconcile_body_none)
    case (missing msg s')
    then show ?thesis using ev True
      by (intro exI [of _ "failed_object dc res1 res2"] exI [of _ msg] exI [of _ "Some msg"])
        (auto simp: body_result_def failed_object_def)
  next
    case (ready s')
    then show ?thesis using ev
      by (intro exI [of _ "ready_object dc res1 res2"] exI [of _ "''Ready''"] exI [of _ None])
        (auto simp: body_result_def ready_object_def)
  qed
qed

section \<open>A cluster to evaluate the reconciler on\<close>

text \<open>
  A world that holds at most one DNSClass and the result of every status update; its
  collaborators keep the contracts above.
\<close>

definition store_condition :: "Condition \<Rightarrow> Condition list \<Rightarrow> Condition list" where
  "store_condition c cs = filter (\<lambda>d. cond_Type d \<noteq> cond_Type c) cs @ [c]"

definition sample_reconciler ::
  "(string + (string \<rightharpoonup> json)) \<Rightarrow> api_error option \<Rightarrow> DNSClass option Reconciler" where
  "sample_reconciler config upd =
     \<lparr>client_Get = (\<lambda>nn w. (case w of None \<Rightarrow> Inl (NotFound ''not found'') | Some dc \<Rightarrow> Inr dc, w)),
      client_StatusUpdate = (\<lambda>dc w. (upd, if upd = None then Some dc else w)),
      client_ListNodes = (\<lambda>w. (Inr [''node''], w)),
      Config = \<lparr>GroupVersion = None, NegotiatedSerializer = None, rest_Other = []\<rparr>,
      RESTClientFor = (\<lambda>_. None),
      rest_GetRaw = (\<lambda>_ _ w. (Inr [], w)),
      json_Unmarshal = (\<lambda>_. config),
      time_Now = (\<lambda>w. (0, w)),
      SetStatusCondition = store_condition,
      RetryOnConflict = attempts 4\<rparr>"

lemma sample_contracts:
  "retry_contract (sample_reconciler config upd)" "condition_contract (sample_reconciler config upd)"
  by (auto simp: retry_contract_def condition_contract_def sample_reconciler_def
      store_condition_def)

definition kubelet_sample :: "string + (string \<rightharpoonup> json)" where
  "kubelet_sample = Inr [''kubeletconfig'' \<mapsto> JObject
     [(''clusterDomain'', JString ''cluster.local''), (''clusterDNS'', JArray [JString ''10.96.0.10''])]]"

definition none_class :: DNSClass where
  "none_class = empty_DNSClass\<lparr>dc_Spec := empty_DNSClassSpec\<lparr>DNSPolicy := DNSNone\<rparr>\<rparr>"

definition start :: "'w \<Rightarrow> 'w st" where
  "start w = \<lparr>world = w, trace = []\<rparr>"

lemmas sample_eval =
  sample_reconciler_def start_def call_def now_def Eventf_def Reconcile_def reconcile_body_def
  reconcile_discovery_def discoverFields_def extractField_def fetchNodeProxyConfigz_def
  kubelet_config_def convert_field_def discover_domain_def discover_nameservers_def
  conclude_discovery_def required_missing_def updateStatus_def writeStatus_def write_attempt_def
  set_condition_def set_state_def set_discovered_def mk_condition_def store_condition_def
  prepare_config_def configz_url_def kubelet_sample_def none_class_def empty_DNSClass_def
  empty_DNSClassSpec_def empty_DNSClassStatus_def empty_DiscoveredFields_def
  ExtractTemplateKeysRegex_def policy_defs eval_nat_numeral Let_def

section \<open>What Reconcile promises\<close>

lemma Reconcile_cases:
  assumes "Reconcile r req s = Ret (err, s')"
  obtains (get_error) e where "call (DidGet req) (client_Get r req) s = (Inl e, s')"
      "err = (if IsNotFound e then None else Some (GetError e))" "logged_error r req s = None"
  | (reconciled) dc0 s0 dc msg e s1 x where
      "call (DidGet req) (client_Get r req) s = (Inr dc0, s0)"
      "body_result dc0 dc msg e" "adds r is_read_or_event s0 s1"
      "updateStatus r e msg dc s1 = (x, s')" "err = map_option DiscoveryError e" "logged_error r req s = x"
proof -
  obtain y s0 where c: "call (DidGet req) (client_Get r req) s = (y, s0)"
    by (cases "call (DidGet req) (client_Get r req) s")
  show ?thesis
  proof (cases y)
    case (Inl e)
    with assms c have "s' = s0" "err = (if IsNotFound e then None else Some (GetError e))"
      by (auto simp: Reconcile_def split: if_splits)
    moreover have "logged_error r req s = None" using c Inl by (simp add: logged_error_def)
    ultimately show ?thesis using get_error c Inl by blast
  next
    case (Inr dc0)
    let ?s = "Eventf ''Normal'' ''Reconciling'' ''StartReconciling'' ''Reconciliation started'' s0"
    let ?dc = "if State (dc_Status dc0) = [] then set_state StateInit dc0 else dc0"
    obtain dc msg e s1 where b: "reconcile_body r ?dc ?s = Ret ((dc, msg, e), s1)"
      and res: "body_result ?dc dc msg e" and a: "adds r is_read_or_event ?s s1"
      using reconcile_body_result [of r ?dc ?s] by blast
    obtain x s2 where u: "updateStatus r e msg dc s1 = (x, s2)" by (cases "updateStatus r e msg dc s1")
    have "s' = s2" "err = map_option DiscoveryError e"
      using assms c Inr b u by (auto simp: Reconcile_def Let_def)
    moreover have "logged_error r req s = x"
      using c Inr b u by (simp add: logged_error_def Let_def)
    moreover have "body_result dc0 dc msg e"
      using res by (auto simp: body_result_def split: option.splits if_splits)
    moreover have "adds r is_read_or_event s0 s1"
      using adds_Eventf a by (rule adds_trans) simp
    ultimately show ?thesis using reconciled c Inr u by blast
  qed
qed

lemma Reconcile_total: "\<exists>err s'. Reconcile r req s = Ret (err, s')"
proof -
  obtain y s0 where c: "call (DidGet req) (client_Get r req) s = (y, s0)"
    by (cases "call (DidGet req) (client_Get r req) s")
  show ?thesis
  proof (cases y)
    case (Inl e)
    with c show ?thesis by (simp add: Reconcile_def)
  next
    case (Inr dc0)
    let ?s = "Eventf ''Normal'' ''Reconciling'' ''StartReconciling'' ''Reconciliation started'' s0"
    let ?dc = "if State (dc_Status dc0) = [] then set_state StateInit dc0 else dc0"
    obtain dc msg e s1 where "reconcile_body r ?dc ?s = Ret ((dc, msg, e), s1)"
      using reconcile_body_result [of r ?dc ?s] by blast
    with c Inr show ?thesis by (auto simp: Reconcile_def Let_def split: prod.split)
  qed
qed

lemma Reconcile_adds:
  assumes "retry_contract r" and "Reconcile r req s = Ret (err, s')"
  shows "adds r (\<lambda>a. is_read_or_event a \<or>
    (\<exists>w dc0 s0 dc msg e. a = DidStatusUpdate w \<and> err = map_option DiscoveryError e \<and>
       call (DidGet req) (client_Get r req) s = (Inr dc0, s0) \<and> body_result dc0 dc msg e \<and>
       written_status r e msg dc (dc_Status w) \<and>
       fresh_write r dc0 w)) s s'" (is "adds r ?P s s'")
  using assms(2)
proof (cases rule: Reconcile_cases)
  case (get_error e)
  then show ?thesis by (auto intro: adds_call)
next
  case (reconciled dc0 s0 dc msg e s1 x)
  have "adds r ?P s s0" using reconciled(1) by (rule adds_call) simp_all
  also have "adds r ?P s0 s1" using reconciled(3) by (rule adds_mono) simp
  also have "adds r ?P s1 s'"
    using updateStatus_adds [OF assms(1) reconciled(4)]
  proof (rule adds_mono)
    fix a
    assume "(\<exists>nn. a = DidGet nn) \<or>
      (\<exists>w. a = DidStatusUpdate w \<and> written_status r e msg dc (dc_Status w) \<and>
        fresh_write r dc w)"
    then show "?P a"
    proof
      assume "\<exists>w. a = DidStatusUpdate w \<and> written_status r e msg dc (dc_Status w) \<and>
        fresh_write r dc w"
      then obtain w where w: "a = DidStatusUpdate w"
        "written_status r e msg dc (dc_Status w)" "fresh_write r dc w" by blast
      from reconciled(2) have "same_object dc0 dc" by (simp add: body_result_def)
      note fresh_write_same [OF this, of r w]
      with reconciled(1,2,5) w show ?thesis by blast
    qed auto
  qed
  finally show ?thesis .
qed

text \<open>
  Reconciling never panics: whatever the API server, the kubelet and the decoder answer,
  \<open>Reconcile\<close> returns; the unchecked type assertions on the discovered values always hold.
\<close>

theorem Reconcile_never_panics: "Reconcile r req s \<noteq> Panic"
  using Reconcile_total [of r req s] by auto

text \<open>
  Every status a run of \<open>Reconcile\<close> sends to the API server is final: the state \<open>ready\<close>
  when the run returns no error, the state \<open>error\<close> when it does, and never \<open>initializing\<close>.
  With the policy \<open>None\<close> a ready status holds discovered fields.
\<close>

theorem Reconcile_writes_final_states:
  assumes "retry_contract r" and "Reconcile r req s = Ret (err, s')"
  shows "\<exists>as. trace s' = trace s @ as \<and>
    (\<forall>w. DidStatusUpdate w \<in> set as \<longrightarrow>
       State (dc_Status w) = (if err = None then StateReady else StateError) \<and>
       (\<forall>dc s0. call (DidGet req) (client_Get r req) s = (Inr dc, s0) \<and> err = None \<and>
          DNSPolicy (dc_Spec dc) = DNSNone \<longrightarrow> st_DiscoveredFields (dc_Status w) \<noteq> None))"
proof -
  obtain as where t: "trace s' = trace s @ as" and P: "\<And>a. a \<in> set as \<Longrightarrow> is_read_or_event a \<or>
      (\<exists>w dc0 s0 dc msg e. a = DidStatusUpdate w \<and> err = map_option DiscoveryError e \<and>
         call (DidGet req) (client_Get r req) s = (Inr dc0, s0) \<and> body_result dc0 dc msg e \<and>
         written_status r e msg dc (dc_Status w) \<and> fresh_write r dc0 w)"
    using adds_trace [OF Reconcile_adds [OF assms]] by blast
  have "State (dc_Status w) = (if err = None then StateReady else StateError) \<and>
       (\<forall>dc s0. call (DidGet req) (client_Get r req) s = (Inr dc, s0) \<and> err = None \<and>
          DNSPolicy (dc_Spec dc) = DNSNone \<longrightarrow> st_DiscoveredFields (dc_Status w) \<noteq> None)"
    if "DidStatusUpdate w \<in> set as" for w
  proof -
    from P [OF that] obtain dc0 s0 dc msg e where
      "err = map_option DiscoveryError e" "call (DidGet req) (client_Get r req) s = (Inr dc0, s0)"
      "body_result dc0 dc msg e" "written_status r e msg dc (dc_Status w)" by auto
    then show ?thesis
      by (cases e) (auto simp: written_status_def body_result_def)
  qed
  with t show ?thesis by blast
qed

theorem Reconcile_writes_final_states_witness:
  "\<exists>err s' w. Reconcile (sample_reconciler kubelet_sample None) \<lparr>nn_Namespace = [], nn_Name = []\<rparr>
      (start (Some none_class)) = Ret (err, s') \<and>
    DidStatusUpdate w \<in> set (trace s') \<and> State (dc_Status w) = StateReady"
proof -
  let ?r = "sample_reconciler kubelet_sample None"
  let ?req = "\<lparr>nn_Namespace = [], nn_Name = []\<rparr>"
  obtain s' w where r: "Reconcile ?r ?req (start (Some none_class)) = Ret (None, s')"
    and w: "DidStatusUpdate w \<in> set (trace s')"
    by (simp add: sample_eval)
  from Reconcile_writes_final_states [OF sample_contracts(1) r] w r show ?thesis
    by (fastforce simp: start_def)
qed

end
