(* ===== verification/Controller_Properties.thy ===== *)
theory Controller_Properties
  imports Controller
begin

text \<open>
  What one run of \<open>Reconcile\<close> promises: when it fails, what it discovers and keeps, which
  conditions it writes and onto which object, what an answer to the status update changes, and
  which of its own writes come back as watch events.
\<close>

section \<open>Reading the kubelet configuration\<close>

text \<open>The first element that is not a string decides the error.\<close>

lemma convert_elements_error:
  "convert_elements f i vs acc = Inl err \<longleftrightarrow>
     (\<exists>ws v vs'. vs = map JString ws @ v # vs' \<and> (\<forall>w. v \<noteq> JString w) \<and>
        err = ''element at index '' @ FormatUint (i + length ws) @ '' in '' @ f @ '' is not a string'')"
proof (induction f i vs acc rule: convert_elements.induct)
  case (1 f i acc)
  then show ?case by simp
next
  case (2 f i v vs acc)
  show ?case
  proof (cases "\<exists>w. v = JString w")
    case True
    then obtain w where v: "v = JString w" by blast
    have "(\<exists>ws v' vs'. JString w # vs = map JString ws @ v' # vs' \<and> (\<forall>w. v' \<noteq> JString w) \<and> Q (length ws))
        \<longleftrightarrow> (\<exists>ws v' vs'. vs = map JString ws @ v' # vs' \<and> (\<forall>w. v' \<noteq> JString w) \<and> Q (Suc (length ws)))"
      (is "?l \<longleftrightarrow> ?r") for Q
    proof
      assume ?l
      then obtain ws v' vs' where *: "JString w # vs = map JString ws @ v' # vs'"
        "\<forall>w. v' \<noteq> JString w" "Q (length ws)" by blast
      then obtain ws' where "ws = w # ws'" by (cases ws) auto
      with * show ?r by auto
    next
      assume ?r
      then obtain ws v' vs' where "vs = map JString ws @ v' # vs'"
        "\<forall>w. v' \<noteq> JString w" "Q (Suc (length ws))" by blast
      then show ?l by (intro exI [of _ "w # ws"] exI [of _ v'] exI [of _ vs']) simp
    qed
    from this [of "\<lambda>n. err = ''element at index '' @ FormatUint (i + n) @ '' in '' @ f @ '' is not a string''"]
    show ?thesis using 2 [OF v] v by simp
  next
    case False
    have "v # vs = map JString ws @ v' # vs' \<longleftrightarrow> ws = [] \<and> v' = v \<and> vs' = vs" for ws v' vs'
      using False by (cases ws) auto
    moreover have "convert_elements f i (v # vs) acc =
        Inl (''element at index '' @ FormatUint i @ '' in '' @ f @ '' is not a string'')"
      using False by (cases v) auto
    ultimately show ?thesis using False by auto
  qed
qed

lemma convert_elements_map [simp]: "convert_elements f i (map JString ws) acc = Inr (acc @ ws)"
  by (auto simp: convert_elements_ok)

lemma map_JString_eq [simp]: "map JString xs = map JString ys \<longleftrightarrow> xs = ys"
  by (simp add: inj_on_def inj_map_eq_map [OF injI])

text \<open>What the API server, the REST client and the decoder have to answer for a successful read.\<close>

definition kubelet_read ::
  "'w Reconciler \<Rightarrow> 'w st \<Rightarrow> (string \<rightharpoonup> json) \<Rightarrow> 'w st \<Rightarrow> bool" where
  "kubelet_read r s data s' \<longleftrightarrow>
     (\<exists>node nodes s1 raw config fs.
        call DidListNodes (client_ListNodes r) s = (Inr (node # nodes), s1) \<and>
        RESTClientFor r (prepare_config (Config r)) = None \<and>
        call (DidGetRaw (configz_url node))
          (rest_GetRaw r (prepare_config (Config r)) (configz_url node)) s1 = (Inr raw, s') \<and>
        json_Unmarshal r raw = Inr config \<and> config ''kubeletconfig'' = Some (JObject fs) \<and>
        data = map_of fs)"

lemma kubelet_config_ok:
  "kubelet_config config = Inr data \<longleftrightarrow>
     (\<exists>fs. config ''kubeletconfig'' = Some (JObject fs) \<and> data = map_of fs)"
  by (auto simp: kubelet_config_def split: option.splits json.splits)

lemma fetch_ok:
  "fetchNodeProxyConfigz r s = (Inr data, s') \<longleftrightarrow> kubelet_read r s data s'"
  by (auto simp: fetchNodeProxyConfigz_def kubelet_read_def Let_def kubelet_config_ok
      split: prod.splits sum.splits list.splits option.splits)

text \<open>
  The cluster domain is the string that the kubelet of the first listed node reports under
  the key: \<open>extractField\<close> returns it exactly when the node list, the REST client, the raw read
  and the decoding succeed, \<open>kubeletconfig\<close> is an object and the key in it is a string.
\<close>

theorem extractField_string_iff:
  "extractField r f ''string'' s = (Inr v, s') \<longleftrightarrow>
     (\<exists>data w. kubelet_read r s data s' \<and> data f = Some (JString w) \<and> v = AString w)"
  by (auto simp: extractField_def convert_field_def fetch_ok [symmetric]
      split: prod.splits sum.splits option.splits json.splits)

text \<open>
  The nameservers are returned exactly when the key holds an array of strings, and then they
  are its elements in order; an empty array gives an empty list, not an error.
\<close>

theorem extractField_strings_iff:
  "extractField r f ''[]string'' s = (Inr v, s') \<longleftrightarrow>
     (\<exists>data ws. kubelet_read r s data s' \<and> data f = Some (JArray (map JString ws)) \<and> v = AStrings ws)"
  by (auto simp: extractField_def convert_field_def fetch_ok [symmetric] convert_elements_ok
      split: prod.splits sum.splits option.splits json.splits)

text \<open>
  Where the array has an element that is not a string, the error names the index of the first
  one.
\<close>

theorem extractField_first_bad_element:
  assumes "kubelet_read r s data s'"
    and "data f = Some (JArray (map JString ws @ v # vs))" and "\<forall>w. v \<noteq> JString w"
  shows "extractField r f ''[]string'' s =
    (Inl (''element at index '' @ FormatUint (length ws) @ '' in '' @ f @ '' is not a string''), s')"
proof -
  have "convert_elements f 0 (map JString ws @ v # vs) [] =
      Inl (''element at index '' @ FormatUint (0 + length ws) @ '' in '' @ f @ '' is not a string'')"
    by (subst convert_elements_error) (use assms(3) in blast)
  with assms(1,2) show ?thesis
    by (simp add: extractField_def convert_field_def fetch_ok [symmetric])
qed

theorem extractField_first_bad_element_witness:
  "fst (extractField (sample_reconciler (Inr [''kubeletconfig'' \<mapsto>
       JObject [(''clusterDNS'', JArray [JString ''10.96.0.10'', JNull])]]) None)
     ''clusterDNS'' ''[]string'' (start None)) =
   Inl ''element at index 1 in clusterDNS is not a string''"
proof -
  let ?vs = "map JString [''10.96.0.10''] @ JNull # []"
  let ?r = "sample_reconciler (Inr [''kubeletconfig'' \<mapsto> JObject [(''clusterDNS'', JArray ?vs)]]) None"
  have "\<exists>s'. kubelet_read ?r (start None) (map_of [(''clusterDNS'', JArray ?vs)]) s'"
    by (simp add: kubelet_read_def sample_eval)
  then obtain s' where "kubelet_read ?r (start None) (map_of [(''clusterDNS'', JArray ?vs)]) s'" ..
  from extractField_first_bad_element [OF this, of "''clusterDNS''" "[''10.96.0.10'']" JNull "[]"]
  show ?thesis by (simp add: FormatUint.simps digit_char_simps)
qed

section \<open>Runs that reach discovery\<close>

text \<open>The state in which the body of \<open>Reconcile\<close> starts, and the results of its two reads.\<close>

definition started :: "'w st \<Rightarrow> 'w st" where
  "started s = Eventf ''Normal'' ''Reconciling'' ''StartReconciling'' ''Reconciliation started'' s"

definition discovery_reads ::
  "'w Reconciler \<Rightarrow> 'w st \<Rightarrow> (string + any) \<Rightarrow> (string + any) \<Rightarrow> bool" where
  "discovery_reads r s res1 res2 \<longleftrightarrow>
     (\<exists>s1 s2. extractField r ''clusterDomain'' ''string'' s = (res1, s1) \<and>
        extractField r ''clusterDNS'' ''[]string'' s1 = (res2, s2))"

definition init_state :: "DNSClass \<Rightarrow> DNSClass" where
  "init_state dc = (if State (dc_Status dc) = [] then set_state StateInit dc else dc)"

lemma init_state_simps [simp]:
  "dc_Spec (init_state dc) = dc_Spec dc"
  "st_DiscoveredFields (dc_Status (init_state dc)) = st_DiscoveredFields (dc_Status dc)"
  "Conditions (dc_Status (init_state dc)) = Conditions (dc_Status dc)"
  "ExtractTemplateKeysRegex (init_state dc) = ExtractTemplateKeysRegex dc"
  "some_required_missing (init_state dc) = some_required_missing dc"
  "known_fields (init_state dc) = known_fields dc"
  "same_object dc (init_state dc)"
  by (auto simp: init_state_def some_required_missing_def known_fields_def fun_eq_iff)

lemma Reconcile_got:
  assumes "call (DidGet req) (client_Get r req) s = (Inr dc, s0)"
    and "reconcile_body r (init_state dc) (started s0) = Ret ((dc', msg, e), s1)"
    and "Reconcile r req s = Ret (err, s')"
  shows "err = map_option DiscoveryError e" "\<exists>x. updateStatus r e msg dc' s1 = (x, s')"
  using assms by (auto simp: Reconcile_def Let_def started_def init_state_def split: prod.splits)

lemma Reconcile_none:
  assumes get: "call (DidGet req) (client_Get r req) s = (Inr dc, s0)"
    and none: "DNSPolicy (dc_Spec dc) = DNSNone"
    and reads: "discovery_reads r (started s0) res1 res2"
    and run: "Reconcile r req s = Ret (err, s')"
  obtains (missing) msg s1 x where "some_required_missing dc res1 res2"
      "err = Some (DiscoveryError msg)" "adds r is_read_or_event s s1"
      "updateStatus r (Some msg) msg (failed_object (init_state dc) res1 res2) s1 = (x, s')"
  | (ready) s1 x where "\<not> some_required_missing dc res1 res2"
      "err = None" "adds r is_read_or_event s s1"
      "updateStatus r None ''Ready'' (ready_object (init_state dc) res1 res2) s1 = (x, s')"
proof -
  from reads obtain s1 s2 where e: "extractField r ''clusterDomain'' ''string'' (started s0) = (res1, s1)"
      "extractField r ''clusterDNS'' ''[]string'' s1 = (res2, s2)"
    by (auto simp: discovery_reads_def)
  have "adds r is_read_or_event s s0" using get by (rule adds_call) simp_all
  also have "adds r is_read_or_event s0 (started s0)" unfolding started_def by (rule adds_Eventf) simp
  also have "adds r is_read_or_event (started s0) s1"
    using extractField_adds [OF e(1)] by (rule adds_mono) (auto elim: is_discovery.elims)
  also have "adds r is_read_or_event s1 s2"
    using extractField_adds [OF e(2)] by (rule adds_mono) (auto elim: is_discovery.elims)
  finally have a: "adds r is_read_or_event s s2" .
  have ev: "adds r is_read_or_event s t" if "adds r (\<lambda>a. \<exists>e. a = DidRecord e) s2 t" for t
    using a by (rule adds_trans) (rule adds_mono [OF that], auto)
  from none have "DNSPolicy (dc_Spec (init_state dc)) = DNSNone" by simp
  from this e show ?thesis
  proof (cases rule: reconcile_body_none)
    case (missing msg t)
    from Reconcile_got [OF get missing(2) run] show ?thesis
      using missing(1) ev [OF missing(3)] that(1) by auto
  next
    case (ready t)
    from Reconcile_got [OF get ready(2) run] show ?thesis
      using ready(1) ev [OF ready(3)] that(2) by auto
  qed
qed

lemma Reconcile_fails:
  assumes "call (DidGet req) (client_Get r req) s = (Inr dc, s0)"
    and "DNSPolicy (dc_Spec dc) = DNSNone"
    and "discovery_reads r (started s0) res1 res2"
    and "Reconcile r req s = Ret (err, s')"
  shows "err \<noteq> None \<longleftrightarrow>
    (''clusterDomain'' \<in> set (ExtractTemplateKeysRegex dc) \<and> isl res1) \<or>
    (''nameservers'' \<in> set (ExtractTemplateKeysRegex dc) \<and> isl res2)"
  using assms by (cases rule: Reconcile_none) (auto simp: some_required_missing_def)

text \<open>
  C3. When reconciling fails: with the policy \<open>None\<close>, a run returns an error exactly when a
  template key of the class is one that discovery did not find. A failed read of a field that no
  search domain uses, the nameservers among them, is no error.
\<close>

theorem Reconcile_fails_iff:
  assumes "call (DidGet req) (client_Get r req) s = (Inr dc, s0)"
    and "DNSPolicy (dc_Spec dc) = DNSNone"
    and "discovery_reads r (started s0) res1 res2"
    and "Reconcile r req s = Ret (err, s')"
  shows "err \<noteq> None \<longleftrightarrow>
    (''clusterDomain'' \<in> set (ExtractTemplateKeysRegex dc) \<and> isl res1) \<or>
    (''nameservers'' \<in> set (ExtractTemplateKeysRegex dc) \<and> isl res2)"
  by (rule Reconcile_fails [OF assms])

definition templated_class :: DNSClass where
  "templated_class = none_class\<lparr>dc_Spec := (dc_Spec none_class)\<lparr>DNSConfig :=
     Some \<lparr>Nameservers = None, Searches = Some [''svc.{{ .clusterDomain }}''], Options = None\<rparr>\<rparr>\<rparr>"

lemma templated_class_facts:
  "ExtractTemplateKeysRegex templated_class = [''clusterDomain'']"
  "DNSPolicy (dc_Spec templated_class) = DNSNone"
  "st_DiscoveredFields (dc_Status templated_class) = None"
  "Conditions (dc_Status templated_class) = []"
  by code_simp+

definition sample_req :: NamespacedName where
  "sample_req = \<lparr>nn_Namespace = [], nn_Name = []\<rparr>"

lemma sample_get:
  "call (DidGet req) (client_Get (sample_reconciler config upd) req) (start (Some dc)) =
     (Inr dc, \<lparr>world = Some dc, trace = [DidGet req]\<rparr>)"
  by (simp add: sample_eval)

lemma sample_reads_fail:
  "discovery_reads (sample_reconciler (Inl ''unexpected end'') upd) (started \<lparr>world = w, trace = t\<rparr>)
     (Inl ''failed to unmarshal config: unexpected end'')
     (Inl ''failed to unmarshal config: unexpected end'')"
  by (simp add: discovery_reads_def started_def sample_eval)

lemma sample_reads_ok:
  "discovery_reads (sample_reconciler kubelet_sample upd) (started \<lparr>world = w, trace = t\<rparr>)
     (Inr (AString ''cluster.local'')) (Inr (AStrings [''10.96.0.10'']))"
  by (simp add: discovery_reads_def started_def sample_eval)

theorem Reconcile_fails_iff_witness:
  "\<exists>e s'. Reconcile (sample_reconciler (Inl ''unexpected end'') None) sample_req (start (Some templated_class)) =
     Ret (Some e, s')"
proof -
  let ?r = "sample_reconciler (Inl ''unexpected end'') None"
  obtain err s' where run: "Reconcile ?r sample_req (start (Some templated_class)) = Ret (err, s')"
    using Reconcile_total by blast
  from Reconcile_fails_iff [OF sample_get templated_class_facts(2) sample_reads_fail run]
  have "err \<noteq> None" by (simp add: templated_class_facts)
  with run show ?thesis by auto
qed

section \<open>What the written status holds\<close>

lemma adds_status:
  assumes "adds r is_read_or_event s s1"
    and "retry_contract r" and "updateStatus r e msg dc s1 = (x, s')"
  shows "\<exists>as. trace s' = trace s @ as \<and>
    (\<forall>w. DidStatusUpdate w \<in> set as \<longrightarrow> written_status r e msg dc (dc_Status w))"
proof -
  obtain as bs where "trace s1 = trace s @ as" "\<forall>a \<in> set as. is_read_or_event a"
    "trace s' = trace s1 @ bs"
    "\<forall>a \<in> set bs. (\<exists>nn. a = DidGet nn) \<or> (\<exists>w. a = DidStatusUpdate w \<and>
       written_status r e msg dc (dc_Status w) \<and> fresh_write r dc w)"
    using assms(1) updateStatus_adds [OF assms(2,3)] by (blast dest: adds_trace)
  then show ?thesis by (intro exI [of _ "as @ bs"]) auto
qed

text \<open>
  C21. What is stored after discovery: a read that succeeded gives the new value, one that failed
  keeps the old one; only a failing run on a class that held no discovered fields stores none.
\<close>

theorem Reconcile_discovered_fields:
  assumes "retry_contract r"
    and "call (DidGet req) (client_Get r req) s = (Inr dc, s0)"
    and "DNSPolicy (dc_Spec dc) = DNSNone"
    and "discovery_reads r (started s0) res1 res2"
    and "Reconcile r req s = Ret (err, s')"
  shows "\<exists>as. trace s' = trace s @ as \<and> (\<forall>w. DidStatusUpdate w \<in> set as \<longrightarrow>
    st_DiscoveredFields (dc_Status w) =
      (if err \<noteq> None \<and> st_DiscoveredFields (dc_Status dc) = None then None
       else Some (merged_fields (known_fields dc) res1 res2)))"
  using assms(2-)
proof (cases rule: Reconcile_none)
  case (missing msg s1 x)
  from adds_status [OF missing(3) assms(1) missing(4)] show ?thesis
    by (elim ex_forward) (simp add: written_status_def missing(2) failed_object_def)
next
  case (ready s1 x)
  from adds_status [OF ready(3) assms(1) ready(4)] show ?thesis
    by (elim ex_forward) (simp add: written_status_def ready(2) ready_object_def)
qed

theorem Reconcile_discovered_fields_witness:
  "\<exists>s' w. Reconcile (sample_reconciler kubelet_sample None) sample_req (start (Some none_class)) = Ret (None, s') \<and>
    DidStatusUpdate w \<in> set (trace s') \<and> st_DiscoveredFields (dc_Status w) =
       Some \<lparr>df_Nameservers = Some [''10.96.0.10''], df_ClusterDomain = ''cluster.local''\<rparr>"
proof -
  let ?r = "sample_reconciler kubelet_sample None"
  obtain s' w where run: "Reconcile ?r sample_req (start (Some none_class)) = Ret (None, s')"
    and w: "DidStatusUpdate w \<in> set (trace s')"
    by (simp add: sample_eval)
  have none: "DNSPolicy (dc_Spec none_class) = DNSNone" by (simp add: none_class_def)
  from Reconcile_discovered_fields [OF sample_contracts(1) sample_get none sample_reads_ok run] w
  show ?thesis by (intro exI [of _ s'] exI [of _ w] conjI run) (simp_all add: start_def merged_fields_def)
qed

text \<open>
  C20. The condition of a run: every status it writes has a true condition of the type of its
  state, with the error's text or \<open>Ready\<close> as the message, and the conditions of every other type
  are the ones that were read. So a class that recovers keeps its true \<open>error\<close> condition beside
  the new \<open>ready\<close> one.
\<close>

theorem Reconcile_conditions:
  assumes "retry_contract r" and cond: "condition_contract r"
    and get: "call (DidGet req) (client_Get r req) s = (Inr dc, s0)"
    and "Reconcile r req s = Ret (err, s')"
  shows "\<exists>as. trace s' = trace s @ as \<and> (\<forall>w. DidStatusUpdate w \<in> set as \<longrightarrow>
    (\<exists>c \<in> set (Conditions (dc_Status w)). cond_Type c = State (dc_Status w) \<and>
       cond_Status c = ConditionTrue \<and>
       (case err of None \<Rightarrow> cond_Message c = ''Ready''
        | Some e \<Rightarrow> e = DiscoveryError (cond_Message c))) \<and>
    (\<forall>d. cond_Type d \<noteq> State (dc_Status w) \<longrightarrow>
       (d \<in> set (Conditions (dc_Status w)) \<longleftrightarrow> d \<in> set (Conditions (dc_Status dc)))))"
  using assms(4)
proof (cases rule: Reconcile_cases)
  case (get_error e)
  with get show ?thesis by simp
next
  case (reconciled dc0 s1 dc' msg e s2 x)
  with get have dc0: "dc0 = dc" by simp
  from reconciled(1) have "adds r is_read_or_event s s1" by (rule adds_call) simp_all
  from adds_trans [OF this reconciled(3)]
  obtain as where t: "trace s' = trace s @ as"
    and w: "\<And>w. DidStatusUpdate w \<in> set as \<Longrightarrow> written_status r e msg dc' (dc_Status w)"
    using adds_status [OF _ assms(1) reconciled(4)] by blast
  have conds: "Conditions (dc_Status dc') = Conditions (dc_Status dc)"
    using reconciled(2) by (simp add: body_result_def dc0)
  show ?thesis
  proof (intro exI [of _ as] conjI t allI impI)
    fix w
    assume "DidStatusUpdate w \<in> set as"
    from w [OF this] obtain t where st: "Conditions (dc_Status w) =
        SetStatusCondition r (status_condition e msg dc' t) (Conditions (dc_Status dc))"
      and state: "State (dc_Status w) = (if e = None then State (dc_Status dc') else StateError)"
      by (auto simp: written_status_def conds)
    have c: "cond_Type (status_condition e msg dc' t) = State (dc_Status w)"
      "cond_Status (status_condition e msg dc' t) = ConditionTrue"
      "case err of None \<Rightarrow> cond_Message (status_condition e msg dc' t) = ''Ready''
       | Some x \<Rightarrow> x = DiscoveryError (cond_Message (status_condition e msg dc' t))"
      using reconciled(2,5) state
      by (auto simp: status_condition_def mk_condition_def body_result_def split: option.splits)
    obtain c' where c': "c' \<in> set (Conditions (dc_Status w))"
      "cond_Type c' = cond_Type (status_condition e msg dc' t)"
      "cond_Status c' = cond_Status (status_condition e msg dc' t)"
      "cond_Message c' = cond_Message (status_condition e msg dc' t)"
      using cond unfolding condition_contract_def st by meson
    from c' c show "\<exists>c \<in> set (Conditions (dc_Status w)). cond_Type c = State (dc_Status w) \<and>
       cond_Status c = ConditionTrue \<and>
       (case err of None \<Rightarrow> cond_Message c = ''Ready''
        | Some e \<Rightarrow> e = DiscoveryError (cond_Message c))"
      by (intro bexI [OF _ c'(1)]) (auto split: option.splits)
    fix d :: Condition
    assume "cond_Type d \<noteq> State (dc_Status w)"
    with c(1) show "d \<in> set (Conditions (dc_Status w)) \<longleftrightarrow> d \<in> set (Conditions (dc_Status dc))"
      using cond unfolding condition_contract_def st by metis
  qed
qed

definition failed_before :: DNSClass where
  "failed_before = none_class\<lparr>dc_Status := (dc_Status none_class)
     \<lparr>State := StateError,
      Conditions := [mk_condition StateError ConditionTrue ''no nodes'' ''ReconcileError'' 0]\<rparr>\<rparr>"

theorem Reconcile_conditions_witness:
  "\<exists>s' w. Reconcile (sample_reconciler kubelet_sample None) sample_req (start (Some failed_before)) =
       Ret (None, s') \<and> DidStatusUpdate w \<in> set (trace s') \<and>
     (\<exists>c \<in> set (Conditions (dc_Status w)). cond_Type c = StateReady \<and> cond_Status c = ConditionTrue) \<and>
     (\<exists>c \<in> set (Conditions (dc_Status w)). cond_Type c = StateError \<and> cond_Status c = ConditionTrue)"
proof -
  let ?r = "sample_reconciler kubelet_sample None"
  let ?c = "mk_condition StateError ConditionTrue ''no nodes'' ''ReconcileError'' 0"
  obtain s' w where run: "Reconcile ?r sample_req (start (Some failed_before)) = Ret (None, s')"
    and w: "DidStatusUpdate w \<in> set (trace s')" "State (dc_Status w) = StateReady"
    by (simp add: sample_eval failed_before_def)
  from Reconcile_conditions [OF sample_contracts sample_get run] w(1)
  have "\<exists>c \<in> set (Conditions (dc_Status w)). cond_Type c = State (dc_Status w) \<and>
      cond_Status c = ConditionTrue"
    and "cond_Type ?c \<noteq> State (dc_Status w) \<Longrightarrow>
      ?c \<in> set (Conditions (dc_Status w)) \<longleftrightarrow> ?c \<in> set (Conditions (dc_Status failed_before))"
    by (auto simp: start_def)
  with w(2) have *: "\<exists>c \<in> set (Conditions (dc_Status w)). cond_Type c = StateReady \<and> cond_Status c = ConditionTrue"
    "?c \<in> set (Conditions (dc_Status w)) \<longleftrightarrow> ?c \<in> set (Conditions (dc_Status failed_before))"
    by (simp_all add: mk_condition_def StateReady_def StateError_def)
  have "?c \<in> set (Conditions (dc_Status failed_before))" by (simp add: failed_before_def)
  with * have "\<exists>c \<in> set (Conditions (dc_Status w)). cond_Type c = StateError \<and> cond_Status c = ConditionTrue"
    by (intro bexI [of _ ?c]) (simp_all add: mk_condition_def)
  with run w(1) *(1) show ?thesis by blast
qed

section \<open>Writes, events and swallowed errors\<close>

text \<open>
  What a run writes is a status: each object it sends is the one that the API server
  returned for the name just before, with nothing but the status replaced, so the update event of
  the write does not pass the event filter and reconciling does not trigger itself. The rest of
  that object, its specification included, may be newer than the one that was reconciled.
\<close>

theorem Reconcile_writes_only_status:
  assumes "retry_contract r"
    and get: "call (DidGet req) (client_Get r req) s = (Inr dc, s0)"
    and "Reconcile r req s = Ret (err, s')"
  shows "\<exists>as. trace s' = trace s @ as \<and> (\<forall>w. DidStatusUpdate w \<in> set as \<longrightarrow>
    (\<exists>w0 w1 read. client_Get r \<lparr>nn_Namespace = dc_Namespace dc, nn_Name = dc_Name dc\<rparr> w0 = (Inr read, w1) \<and>
       w = read\<lparr>dc_Status := dc_Status w\<rparr> \<and> \<not> dnsClassPredicate (UpdateEvent read w)))"
proof -
  obtain as where t: "trace s' = trace s @ as" and P: "\<And>a. a \<in> set as \<Longrightarrow> is_read_or_event a \<or>
      (\<exists>w dc0 s0 dc msg e. a = DidStatusUpdate w \<and> err = map_option DiscoveryError e \<and>
         call (DidGet req) (client_Get r req) s = (Inr dc0, s0) \<and> body_result dc0 dc msg e \<and>
         written_status r e msg dc (dc_Status w) \<and> fresh_write r dc0 w)"
    using adds_trace [OF Reconcile_adds [OF assms(1,3)]] by blast
  have "\<exists>w0 w1 read. client_Get r \<lparr>nn_Namespace = dc_Namespace dc, nn_Name = dc_Name dc\<rparr> w0 = (Inr read, w1) \<and>
       w = read\<lparr>dc_Status := dc_Status w\<rparr> \<and> \<not> dnsClassPredicate (UpdateEvent read w)"
    if "DidStatusUpdate w \<in> set as" for w
  proof -
    from P [OF that] get have "fresh_write r dc w" by auto
    then obtain w0 w1 read where r: "client_Get r \<lparr>nn_Namespace = dc_Namespace dc, nn_Name = dc_Name dc\<rparr> w0 =
        (Inr read, w1)" and w: "w = read\<lparr>dc_Status := dc_Status w\<rparr>"
      by (auto simp: fresh_write_def)
    from arg_cong [OF w, of dc_Generation] have "dc_Generation w = dc_Generation read" by simp
    with r w show ?thesis by auto
  qed
  with t show ?thesis by blast
qed

theorem Reconcile_writes_only_status_witness:
  "\<exists>s' w. Reconcile (sample_reconciler kubelet_sample None) sample_req (start (Some none_class)) = Ret (None, s') \<and>
     DidStatusUpdate w \<in> set (trace s') \<and> \<not> dnsClassPredicate (UpdateEvent none_class w)"
proof -
  let ?r = "sample_reconciler kubelet_sample None"
  obtain s' w where run: "Reconcile ?r sample_req (start (Some none_class)) = Ret (None, s')"
    and w: "DidStatusUpdate w \<in> set (trace s')" "dc_Generation w = dc_Generation none_class"
    by (simp add: sample_eval)
  from Reconcile_writes_only_status [OF sample_contracts(1) sample_get run] w
  have "\<not> dnsClassPredicate (UpdateEvent none_class w)" by (auto simp: start_def)
  with run w show ?thesis by blast
qed

text \<open>What the body does does not depend on the operations that only write the status.\<close>

lemma fetch_update [simp]:
  "fetchNodeProxyConfigz (r\<lparr>client_StatusUpdate := f\<rparr>) s = fetchNodeProxyConfigz r s"
  by (simp add: fetchNodeProxyConfigz_def Let_def
      split: prod.split sum.split list.split option.split)

lemma extractField_update [simp]:
  "extractField (r\<lparr>client_StatusUpdate := f\<rparr>) fl ty s = extractField r fl ty s"
  by (simp add: extractField_def)

lemma discoverFields_update [simp]:
  "discoverFields (r\<lparr>client_StatusUpdate := f\<rparr>) df s = discoverFields r df s"
  by (simp add: discoverFields_def split: prod.split)

lemma body_update [simp]: "reconcile_body (r\<lparr>client_StatusUpdate := f\<rparr>) dc s = reconcile_body r dc s"
  by (simp add: reconcile_body_def reconcile_discovery_def Let_def)

text \<open>
  C38. The answers to the status updates do not reach the work queue: whatever the API server
  says to them, \<open>Reconcile\<close> returns the same error, so a status that could not be written is not
  tried again by a later run of its own.
\<close>

theorem Reconcile_ignores_status_errors:
  "obind (Reconcile (r\<lparr>client_StatusUpdate := f\<rparr>) req s) (\<lambda>(err, s'). Ret err) =
   obind (Reconcile r req s) (\<lambda>(err, s'). Ret err)"
proof -
  obtain y s0 where c: "call (DidGet req) (client_Get r req) s = (y, s0)"
    by (cases "call (DidGet req) (client_Get r req) s")
  show ?thesis
  proof (cases y)
    case (Inl e)
    with c show ?thesis by (simp add: Reconcile_def)
  next
    case (Inr dc)
    obtain dc' msg e s1 where b: "reconcile_body r (init_state dc) (started s0) = Ret ((dc', msg, e), s1)"
      using reconcile_body_result by blast
    with c Inr show ?thesis
      by (simp add: Reconcile_def Let_def init_state_def started_def split: prod.splits)
  qed
qed

text \<open>
  With another policy than \<open>None\<close> a run reads no kubelet, never fails after the first read
  and leaves the discovered fields as they were: a class without them becomes \<open>ready\<close> without
  them.
\<close>

theorem Reconcile_other_policy:
  assumes "retry_contract r"
    and get: "call (DidGet req) (client_Get r req) s = (Inr dc, s0)"
    and other: "DNSPolicy (dc_Spec dc) \<noteq> DNSNone"
    and run: "Reconcile r req s = Ret (err, s')"
  shows "err = None \<and> (\<exists>as. trace s' = trace s @ as \<and> (\<forall>a \<in> set as. \<not> is_discovery a) \<and>
    (\<forall>w. DidStatusUpdate w \<in> set as \<longrightarrow> State (dc_Status w) = StateReady \<and>
       st_DiscoveredFields (dc_Status w) = st_DiscoveredFields (dc_Status dc)))"
proof -
  let ?P = "\<lambda>a. \<not> is_discovery a \<and> (\<forall>w. a = DidStatusUpdate w \<longrightarrow> State (dc_Status w) = StateReady \<and>
    st_DiscoveredFields (dc_Status w) = st_DiscoveredFields (dc_Status dc))"
  from other have "DNSPolicy (dc_Spec (init_state dc)) \<noteq> DNSNone" by simp
  then obtain s1 where b: "reconcile_body r (init_state dc) (started s0) =
      Ret ((set_state StateReady (init_state dc), ''Ready'', None), s1)"
    and a: "adds r (\<lambda>a. \<exists>e. a = DidRecord e) (started s0) s1"
    by (rule reconcile_body_other)
  from Reconcile_got [OF get b run] obtain x where err: "err = None"
    and u: "updateStatus r None ''Ready'' (set_state StateReady (init_state dc)) s1 = (x, s')" by auto
  have "adds r ?P s s0" using get by (rule adds_call) simp_all
  also have "adds r ?P s0 (started s0)" unfolding started_def by (rule adds_Eventf) simp
  also have "adds r ?P (started s0) s1" using a by (rule adds_mono) auto
  also have "adds r ?P s1 s'"
    using updateStatus_adds [OF assms(1) u] by (rule adds_mono) (auto simp: written_status_def)
  finally show ?thesis using err by (blast dest: adds_trace)
qed

theorem Reconcile_other_policy_witness:
  "\<exists>s' w. Reconcile (sample_reconciler (Inl ''unexpected end'') None) sample_req (start (Some empty_DNSClass)) =
       Ret (None, s') \<and> DidStatusUpdate w \<in> set (trace s') \<and>
     State (dc_Status w) = StateReady \<and> st_DiscoveredFields (dc_Status w) = None"
proof -
  let ?r = "sample_reconciler (Inl ''unexpected end'') None"
  have other: "DNSPolicy (dc_Spec empty_DNSClass) \<noteq> DNSNone" by (simp add: sample_eval)
  obtain s' w where run: "Reconcile ?r sample_req (start (Some empty_DNSClass)) = Ret (None, s')"
    and w: "DidStatusUpdate w \<in> set (trace s')"
    by (simp add: sample_eval)
  from Reconcile_other_policy [OF sample_contracts(1) sample_get other run] w run show ?thesis
    by (intro exI [of _ s'] exI [of _ w]) (auto simp: start_def sample_eval)
qed

end
