(* ===== verification/Go_Template.thy ===== *)
theory Go_Template
  imports Template_Keys
begin

text \<open>
  What the pod webhook uses of Go's \<open>text/template\<close>: parsing a search string with
  \<open>template.New("").Option("missingkey=error").Parse\<close> and executing it on a map of strings.
  Templates whose only actions are fields, \<open>{{ .key }}\<close>, are modelled as the package's
  lexer, parser and executor treat them, and so are the mistakes in writing such a field that
  the package refuses to parse: an action that is not closed, an empty one, and a name without
  its dot. A template with any other action (pipelines, trim markers, nested fields, control
  structures, other syntax errors) is handed to the parameter \<open>other\<close>, of which nothing is
  assumed.
\<close>

section \<open>Parsing and executing field templates\<close>

datatype tmpl_error = ParseError | ExecError

type_synonym params = "string \<rightharpoonup> string"

type_synonym template_engine = "string \<Rightarrow> params \<Rightarrow> tmpl_error + string"

datatype node = TextNode string | FieldNode string

text \<open>The lexer's \<open>isSpace\<close>; unlike \<open>\s\<close> of the regular expression it has no form feed.\<close>

definition tmpl_space :: "char \<Rightarrow> bool" where
  "tmpl_space c \<longleftrightarrow> c = CHR '' '' \<or> c = CHR 0x09 \<or> c = CHR 0x0D \<or> c = CHR 0x0A"

text \<open>
  The action after a left delimiter, when it is one field: the key and the input after the
  right delimiter. A dot followed by a digit starts a number, not a field.
\<close>

definition field_action :: "string \<Rightarrow> (string \<times> string) option" where
  "field_action s =
     (case dropWhile tmpl_space s of
        c # r \<Rightarrow>
          (if c = CHR ''.'' then
             (let k = takeWhile re_word r; t = dropWhile tmpl_space (dropWhile re_word r)
              in if k \<noteq> [] \<and> \<not> is_digit (hd k) \<and> take 2 t = ''}}'' then Some (k, drop 2 t)
                 else None)
           else None)
      | [] \<Rightarrow> None)"

text \<open>
  Actions that never parse. Without a right delimiter in the rest of the input the lexer reaches
  the end inside the action; an action of white space only is a missing command; a name without a
  dot is a function, and undefined unless it is a keyword, a constant or one of the predefined
  functions. A name starts with a letter or an underscore.
\<close>

fun closed :: "string \<Rightarrow> bool" where
  "closed [] \<longleftrightarrow> False"
| "closed (c # cs) \<longleftrightarrow> take 2 (c # cs) = ''}}'' \<or> closed cs"

definition defined_names :: "string list" where
  "defined_names =
     [''and'', ''call'', ''html'', ''index'', ''slice'', ''js'', ''len'', ''not'', ''or'', ''print'',
      ''printf'', ''println'', ''urlquery'', ''eq'', ''ge'', ''gt'', ''le'', ''lt'', ''ne'',
      ''block'', ''break'', ''continue'', ''define'', ''else'', ''end'', ''if'', ''range'', ''nil'',
      ''template'', ''with'', ''true'', ''false'']"

definition bad_action :: "string \<Rightarrow> bool" where
  "bad_action s \<longleftrightarrow>
     \<not> closed s \<or>
     (let r = dropWhile tmpl_space s;
          name = takeWhile re_word r
      in take 2 (dropWhile tmpl_space (dropWhile re_word r)) = ''}}'' \<and>
         (name = [] \<or> \<not> is_digit (hd name) \<and> name \<notin> set defined_names))"

definition emit_text :: "string \<Rightarrow> node list \<Rightarrow> node list" where
  "emit_text buf ns = (if buf = [] then ns else TextNode buf # ns)"

lemma field_action_shorter: "field_action s = Some (k, rest) \<Longrightarrow> length rest < length s"
proof -
  assume "field_action s = Some (k, rest)"
  then obtain r where d: "dropWhile tmpl_space s = CHR ''.'' # r"
    and rest: "rest = drop 2 (dropWhile tmpl_space (dropWhile re_word r))"
    by (auto simp: field_action_def Let_def split: list.splits if_splits)
  have "length rest \<le> length r"
    unfolding rest length_drop
    by (meson diff_le_self dual_order.trans length_dropWhile_le)
  also have "length r < length s"
    using length_dropWhile_le [of tmpl_space s] by (simp add: d)
  finally show ?thesis .
qed

text \<open>
  The lexer and parser: text up to the next left delimiter, then an action. The result is the
  list of nodes, or that the package refuses the template, or that the template is beyond the
  model. The first action that is no field decides between the latter two.
\<close>

datatype parsed = Parsed (parsed_nodes: "node list") | Malformed | Beyond

fun prepend_nodes :: "(node list \<Rightarrow> node list) \<Rightarrow> parsed \<Rightarrow> parsed" where
  "prepend_nodes f (Parsed ns) = Parsed (f ns)"
| "prepend_nodes f Malformed = Malformed"
| "prepend_nodes f Beyond = Beyond"

function parse_nodes :: "string \<Rightarrow> string \<Rightarrow> parsed" where
  "parse_nodes buf [] = Parsed (emit_text buf [])"
| "parse_nodes buf (c # cs) =
     (if take 2 (c # cs) = ''{{'' then
        (case field_action (drop 2 (c # cs)) of
           None \<Rightarrow> (if bad_action (drop 2 (c # cs)) then Malformed else Beyond)
         | Some (k, rest) \<Rightarrow> prepend_nodes (\<lambda>ns. emit_text buf (FieldNode k # ns)) (parse_nodes [] rest))
      else parse_nodes (buf @ [c]) cs)"
  by pat_completeness auto
termination
  by (relation "measure (\<lambda>(buf, s). length s)") (fastforce dest: field_action_shorter)+

lemma prepend_nodes_Parsed [simp]: "prepend_nodes f p = Parsed ns \<longleftrightarrow> (\<exists>ns'. p = Parsed ns' \<and> ns = f ns')"
  by (cases p) auto

text \<open>Execution with \<open>missingkey=error\<close>: a field that the map does not hold is an error.\<close>

fun exec_nodes :: "node list \<Rightarrow> params \<Rightarrow> string \<Rightarrow> tmpl_error + string" where
  "exec_nodes [] m out = Inr out"
| "exec_nodes (TextNode t # ns) m out = exec_nodes ns m (out @ t)"
| "exec_nodes (FieldNode k # ns) m out =
     (case m k of None \<Rightarrow> Inl ExecError | Some v \<Rightarrow> exec_nodes ns m (out @ v))"

definition simple_template :: "string \<Rightarrow> bool" where
  "simple_template s \<longleftrightarrow> (case parse_nodes [] s of Parsed _ \<Rightarrow> True | _ \<Rightarrow> False)"

definition malformed_template :: "string \<Rightarrow> bool" where
  "malformed_template s \<longleftrightarrow> parse_nodes [] s = Malformed"

definition run_template :: "template_engine \<Rightarrow> template_engine" where
  "run_template other s m =
     (case parse_nodes [] s of
        Parsed ns \<Rightarrow> exec_nodes ns m []
      | Malformed \<Rightarrow> Inl ParseError
      | Beyond \<Rightarrow> other s m)"

section \<open>Fields and the keys of the regular expression\<close>

fun node_keys :: "node list \<Rightarrow> string list" where
  "node_keys [] = []"
| "node_keys (TextNode t # ns) = node_keys ns"
| "node_keys (FieldNode k # ns) = k # node_keys ns"

lemma node_keys_emit [simp]: "node_keys (emit_text t ns) = node_keys ns"
  by (simp add: emit_text_def)

lemma tmpl_space_re_space: "tmpl_space c \<Longrightarrow> re_space c"
  by (auto simp: tmpl_space_def re_space_def)

lemma dropWhile_weaker:
  assumes "\<And>c. P c \<Longrightarrow> Q c" and "dropWhile P s = c # r" and "\<not> Q c"
  shows "dropWhile Q s = c # r"
  using assms(2) by (induction s) (auto simp: assms(1,3) split: if_splits)

lemma field_action_match_at:
  assumes "take 2 s = ''{{''" and "field_action (drop 2 s) = Some (k, rest)"
  shows "match_at s = Some (k, rest)"
proof -
  from assms(2) obtain r where d: "dropWhile tmpl_space (drop 2 s) = CHR ''.'' # r"
    and k: "k = takeWhile re_word r" "k \<noteq> []"
    and t: "take 2 (dropWhile tmpl_space (dropWhile re_word r)) = ''}}''"
    and rest: "rest = drop 2 (dropWhile tmpl_space (dropWhile re_word r))"
    by (auto simp: field_action_def Let_def split: list.splits if_splits)
  have d': "dropWhile re_space (drop 2 s) = CHR ''.'' # r"
    by (rule dropWhile_weaker [OF tmpl_space_re_space d]) auto
  from t obtain ys where ys: "dropWhile tmpl_space (dropWhile re_word r) = CHR ''}'' # CHR ''}'' # ys"
    by (auto simp: take2_eq_iff)
  have t': "dropWhile re_space (dropWhile re_word r) = CHR ''}'' # CHR ''}'' # ys"
    by (rule dropWhile_weaker [OF tmpl_space_re_space ys]) auto
  show ?thesis
    using assms(1) d' t' k ys rest by (simp add: match_at_def Let_def)
qed

lemma scan_keys_Nil [simp]: "scan_keys [] = []"
  by (simp add: scan_keys_def)

lemma scan_keys_match: "match_at (c # cs) = Some (k, rest) \<Longrightarrow> scan_keys (c # cs) = k # scan_keys rest"
  by (simp add: scan_keys_def)

lemma scan_keys_skip: "match_at (c # cs) = None \<Longrightarrow> scan_keys (c # cs) = scan_keys cs"
  by (simp add: scan_keys_def)

lemma match_at_no_delim: "take 2 s \<noteq> ''{{'' \<Longrightarrow> match_at s = None"
  by (simp add: match_at_def)

lemma parse_nodes_keys: "parse_nodes buf s = Parsed ns \<Longrightarrow> node_keys ns = scan_keys s"
proof (induction buf s arbitrary: ns rule: parse_nodes.induct)
  case (1 buf)
  then show ?case by auto
next
  case (2 buf c cs)
  show ?case
  proof (cases "take 2 (c # cs) = ''{{''")
    case True
    with "2.prems" obtain k rest ns' where f: "field_action (drop 2 (c # cs)) = Some (k, rest)"
      and p: "parse_nodes [] rest = Parsed ns'" and ns: "ns = emit_text buf (FieldNode k # ns')"
      by (auto split: option.splits if_splits)
    have "node_keys ns' = scan_keys rest"
      using "2.IH"(1) [OF True f _ p] by simp
    then show ?thesis
      using scan_keys_match [OF field_action_match_at [OF True f]] by (simp add: ns)
  next
    case False
    with "2.prems" have "parse_nodes (buf @ [c]) cs = Parsed ns" by (auto split: if_splits)
    with "2.IH"(2) [OF False] show ?thesis
      using scan_keys_skip [OF match_at_no_delim [OF False]] by simp
  qed
qed

section \<open>Rendering as substitution\<close>

text \<open>
  The specification: every match of the regular expression is replaced by the value of its
  key, the rest of the string is copied.
\<close>

function subst_keys :: "params \<Rightarrow> string \<Rightarrow> string" where
  "subst_keys m [] = []"
| "subst_keys m (c # cs) =
     (case match_at (c # cs) of
        None \<Rightarrow> c # subst_keys m cs
      | Some (k, rest) \<Rightarrow> (case m k of None \<Rightarrow> [] | Some v \<Rightarrow> v) @ subst_keys m rest)"
  by pat_completeness auto
termination
  by (relation "measure (\<lambda>(m, s). length s)") (auto dest: match_at_shorter)

lemma exec_nodes_fail:
  "\<not> set (node_keys ns) \<subseteq> dom m \<Longrightarrow> exec_nodes ns m out = Inl ExecError"
  by (induction ns m out rule: exec_nodes.induct) (auto split: option.splits)

lemma exec_emit [simp]: "exec_nodes (emit_text t ns) m out = exec_nodes ns m (out @ t)"
  by (simp add: emit_text_def)

lemma exec_nodes_subst:
  "parse_nodes buf s = Parsed ns \<Longrightarrow> set (node_keys ns) \<subseteq> dom m \<Longrightarrow>
     exec_nodes ns m out = Inr (out @ buf @ subst_keys m s)"
proof (induction buf s arbitrary: ns out rule: parse_nodes.induct)
  case (1 buf)
  then show ?case by auto
next
  case (2 buf c cs)
  show ?case
  proof (cases "take 2 (c # cs) = ''{{''")
    case True
    with "2.prems" obtain k rest ns' where f: "field_action (drop 2 (c # cs)) = Some (k, rest)"
      and p: "parse_nodes [] rest = Parsed ns'" and ns: "ns = emit_text buf (FieldNode k # ns')"
      by (auto split: option.splits if_splits)
    from "2.prems"(2) ns obtain v where v: "m k = Some v" and sub: "set (node_keys ns') \<subseteq> dom m"
      by auto
    have "exec_nodes ns' m (out @ buf @ v) = Inr ((out @ buf @ v) @ [] @ subst_keys m rest)"
      using "2.IH"(1) [OF True f _ p sub] by simp
    then show ?thesis
      using field_action_match_at [OF True f] v by (simp add: ns)
  next
    case False
    with "2.prems" have "parse_nodes (buf @ [c]) cs = Parsed ns" by (auto split: if_splits)
    with "2.IH"(2) [OF False] "2.prems"(2)
    have "exec_nodes ns m out = Inr (out @ (buf @ [c]) @ subst_keys m cs)" by blast
    then show ?thesis using match_at_no_delim [OF False] by simp
  qed
qed

lemma run_template_simple:
  assumes "simple_template s"
  shows "run_template other s m =
    (if set (scan_keys s) \<subseteq> dom m then Inr (subst_keys m s) else Inl ExecError)"
proof -
  from assms obtain ns where ns: "parse_nodes [] s = Parsed ns"
    by (auto simp: simple_template_def split: parsed.splits)
  then show ?thesis
    using exec_nodes_subst [OF ns, of m "[]"] exec_nodes_fail [of ns m "[]"]
      parse_nodes_keys [OF ns]
    by (simp add: run_template_def)
qed

text \<open>
  What rendering gives: the substituted text or an execution error for a field template, a parse
  error for a malformed one.
\<close>

definition rendered :: "template_engine \<Rightarrow> params \<Rightarrow> string \<Rightarrow> tmpl_error + string" where
  "rendered other m s =
     (if simple_template s
      then if set (scan_keys s) \<subseteq> dom m then Inr (subst_keys m s) else Inl ExecError
      else if malformed_template s then Inl ParseError else other s m)"

lemma run_template_rendered: "run_template other s m = rendered other m s"
proof (cases "parse_nodes [] s")
  case (Parsed ns)
  then have "simple_template s" by (simp add: simple_template_def)
  then show ?thesis by (simp add: rendered_def run_template_simple)
qed (simp_all add: rendered_def run_template_def simple_template_def malformed_template_def)

lemma subst_keys_cong:
  "\<forall>k \<in> set (scan_keys s). m k = m' k \<Longrightarrow> subst_keys m s = subst_keys m' s"
proof (induction m s rule: subst_keys.induct)
  case (1 m)
  show ?case by simp
next
  case (2 m c cs)
  then show ?case
    by (cases "match_at (c # cs)") (auto simp: scan_keys_match scan_keys_skip)
qed

section \<open>The renderer the pod webhook relies on\<close>

text \<open>
  What a client of the template engine needs of it: on the templates it accepts, rendering
  succeeds when the parameters hold every key, fails in execution otherwise, and depends on
  the values of those keys only.
\<close>

locale search_renderer =
  fixes render :: template_engine
    and keys :: "string \<Rightarrow> string list"
    and accepts :: "string \<Rightarrow> bool"
  assumes render_ok: "accepts s \<Longrightarrow> set (keys s) \<subseteq> dom m \<Longrightarrow> \<exists>out. render s m = Inr out"
    and render_missing: "accepts s \<Longrightarrow> \<not> set (keys s) \<subseteq> dom m \<Longrightarrow> render s m = Inl ExecError"
    and render_local: "accepts s \<Longrightarrow> \<forall>k \<in> set (keys s). m k = m' k \<Longrightarrow> render s m = render s m'"

interpretation go_template: search_renderer "run_template other" scan_keys simple_template
  for other :: template_engine
proof unfold_locales
  fix s and m :: params
  assume "simple_template s" "set (scan_keys s) \<subseteq> dom m"
  then show "\<exists>out. run_template other s m = Inr out" by (simp add: run_template_simple)
next
  fix s and m :: params
  assume "simple_template s" "\<not> set (scan_keys s) \<subseteq> dom m"
  then show "run_template other s m = Inl ExecError" by (simp add: run_template_simple)
next
  fix s and m m' :: params
  assume s: "simple_template s" and eq: "\<forall>k \<in> set (scan_keys s). m k = m' k"
  have "set (scan_keys s) \<subseteq> dom m \<longleftrightarrow> set (scan_keys s) \<subseteq> dom m'"
    using eq by (auto simp: dom_def)
  with s show "run_template other s m = run_template other s m'"
    by (simp add: run_template_simple subst_keys_cong [OF eq])
qed

text \<open>
  A search template of field actions renders, for any parameters, to the search string
  with each \<open>{{ .key }}\<close> pattern replaced by the key's value, and fails in execution exactly
  when some key the regular expression extracts is missing from the parameters.
\<close>

theorem run_template_substitutes:
  assumes "simple_template s"
  shows "run_template other s m =
    (if set (scan_keys s) \<subseteq> dom m then Inr (subst_keys m s) else Inl ExecError)"
  using assms by (rule run_template_simple)

theorem run_template_substitutes_witness:
  "simple_template ''svc.{{ .clusterDomain }}'' \<and>
   run_template (\<lambda>_ _. Inl ParseError) ''svc.{{ .clusterDomain }}''
     [''clusterDomain'' \<mapsto> ''cluster.local''] = Inr ''svc.cluster.local''"
proof -
  let ?s = "''svc.{{ .clusterDomain }}''"
  have s: "simple_template ?s"
    by code_simp
  have k: "scan_keys ?s = [''clusterDomain'']"
    by code_simp
  have o: "subst_keys [''clusterDomain'' \<mapsto> ''cluster.local''] ?s = ''svc.cluster.local''"
    by code_simp
  show ?thesis
    using s o run_template_substitutes [OF s, of "\<lambda>_ _. Inl ParseError" "[''clusterDomain'' \<mapsto> ''cluster.local'']"]
    by (simp add: k)
qed

end
