(* ===== verification/Pod_Webhook.thy ===== *)
theory Pod_Webhook
  imports Go_Template
begin

text \<open>
  The mutating pod webhook of \<open>internal/webhook/pods/pods_webhook.go\<close>: the choice of the
  DNSClass for a pod, the configuration it applies and the whole admission handler. The
  client (\<open>List\<close>), the decoder, the JSON encoder and the template engine are parameters.
  Logging (and the owner references read for it) is left out.
\<close>

section \<open>Pods and admission\<close>

text \<open>
  Of a pod the handler reads and writes the fields below; \<open>pod_Rest\<close> is everything else.
  A Go map that is nil differs from an empty one, so the annotations are an option.
\<close>

record 'r Pod =
  pod_Namespace :: string
  pod_Annotations :: "(string \<rightharpoonup> string) option"
  pod_DNSPolicy :: DNSPolicy_t
  pod_DNSConfig :: "PodDNSConfig option"
  pod_Rest :: 'r

record Request =
  Object_Raw :: string

text \<open>
  The answers the handler gives: \<open>admission.Allowed(message)\<close> lets the pod through as it is,
  \<open>admission.PatchResponseFromRaw(original, current)\<close> replaces it.
\<close>

datatype Response = Allowed string | PatchResponseFromRaw string string

definition DNSClassName :: string where
  "DNSClassName = ''kubedns-shepherd.io/dns-class-name''"

definition ErrPodDecode :: string where
  "ErrPodDecode = ''failed to decode pod object''"

definition ErrNoDNSClass :: string where
  "ErrNoDNSClass = ''no matching DNSClass found''"

definition ErrNotAvailableDNSClass :: string where
  "ErrNotAvailableDNSClass = ''DNSClass not currently available''"

definition ErrDNSConfig :: string where
  "ErrDNSConfig = ''DNSClass config failed to apply''"

definition ErrMarshal :: string where
  "ErrMarshal = ''json marshal failed''"

text \<open>The mutator's collaborators.\<close>

record 'r PodMutator =
  Decode :: "Request \<Rightarrow> 'r Pod option"
  List_classes :: "string + DNSClass list"
  json_Marshal :: "'r Pod \<Rightarrow> string option"
  text_template :: template_engine

section \<open>Choosing the class\<close>

fun select_DNSClass :: "'r Pod \<Rightarrow> DNSClass list \<Rightarrow> DNSClass \<times> string option" where
  "select_DNSClass pod [] = (empty_DNSClass, Some ErrNoDNSClass)"
| "select_DNSClass pod (item # items) =
     (if slices_Contains (elems (DisabledNamespaces (dc_Spec item))) (pod_Namespace pod)
      then select_DNSClass pod items
      else if \<not> slices_Contains (elems (AllowedDNSPolicies (dc_Spec item))) (pod_DNSPolicy pod)
      then select_DNSClass pod items
      else if length (elems (AllowedNamespaces (dc_Spec item))) = 0 \<or>
              slices_Contains (elems (AllowedNamespaces (dc_Spec item))) (pod_Namespace pod)
      then (item, None)
      else select_DNSClass pod items)"

definition getDNSClass :: "'r PodMutator \<Rightarrow> 'r Pod \<Rightarrow> DNSClass \<times> string option" where
  "getDNSClass p pod =
     (case List_classes p of
        Inl err \<Rightarrow> (empty_DNSClass, Some err)
      | Inr items \<Rightarrow> select_DNSClass pod items)"

section \<open>Applying the class\<close>

datatype dns_error = SearchParse string | SearchExecute string | NoNameservers

text \<open>The loop over the search templates, with the rendered ones so far.\<close>

fun render_searches ::
  "template_engine \<Rightarrow> params \<Rightarrow> string list \<Rightarrow> string list \<Rightarrow> dns_error + string list" where
  "render_searches render m [] searches = Inr searches"
| "render_searches render m (search # ss) searches =
     (case render search m of
        Inl ParseError \<Rightarrow> Inl (SearchParse search)
      | Inl ExecError \<Rightarrow> Inl (SearchExecute search)
      | Inr out \<Rightarrow> render_searches render m ss (searches @ [out]))"

definition parameterMap :: "string \<Rightarrow> string \<Rightarrow> params" where
  "parameterMap ns domain =
     (let m = Map.empty;
          m = (if ns \<noteq> [] then m(''podNamespace'' \<mapsto> ns) else m);
          m = (if domain \<noteq> [] then m(''clusterDomain'' \<mapsto> domain) else m)
      in m)"

definition updateAnnotation :: "'r Pod \<Rightarrow> string \<Rightarrow> string \<Rightarrow> 'r Pod" where
  "updateAnnotation pod key v =
     (let annotations = (case pod_Annotations pod of None \<Rightarrow> Map.empty | Some a \<Rightarrow> a)
      in pod\<lparr>pod_Annotations := Some (annotations(key \<mapsto> v))\<rparr>)"

text \<open>
  The assignments after the configuration is in place: the policy and the annotation. The
  pod is returned with the error, because the Go function changes it in place and may have
  set its configuration before it fails.
\<close>

definition finish_pod :: "'r Pod \<Rightarrow> DNSClass \<Rightarrow> 'r Pod \<times> dns_error option" where
  "finish_pod pod dnsClass =
     (updateAnnotation (pod\<lparr>pod_DNSPolicy := DNSPolicy (dc_Spec dnsClass)\<rparr>)
        DNSClassName (dc_Name dnsClass), None)"

text \<open>
  \<open>dnsClass.Status.DiscoveredFields.ClusterDomain\<close> dereferences a pointer that is nil when
  nothing was discovered yet: that call panics.
\<close>

definition configureDNSForPod ::
  "template_engine \<Rightarrow> 'r Pod \<Rightarrow> DNSClass \<Rightarrow> ('r Pod \<times> dns_error option) outcome" where
  "configureDNSForPod render pod dnsClass =
     (if DNSPolicy (dc_Spec dnsClass) = DNSNone then
        (case st_DiscoveredFields (dc_Status dnsClass) of
           None \<Rightarrow> Panic
         | Some df \<Rightarrow>
             (let m = parameterMap (pod_Namespace pod) (df_ClusterDomain df);
                  cfg = (case DNSConfig (dc_Spec dnsClass) of
                           None \<Rightarrow> empty_PodDNSConfig | Some c \<Rightarrow> c)
              in case render_searches render m (elems (Searches cfg)) [] of
                   Inl e \<Rightarrow> Ret (pod, Some e)
                 | Inr searches \<Rightarrow>
                     (let cfg = cfg\<lparr>Searches := Some searches\<rparr>;
                          pod = pod\<lparr>pod_DNSConfig := Some cfg\<rparr>
                      in if Nameservers cfg = None \<and> df_Nameservers df = None
                         then Ret (pod, Some NoNameservers)
                         else
                           (let cfg = (if Nameservers cfg = None
                                       then cfg\<lparr>Nameservers := df_Nameservers df\<rparr> else cfg);
                                pod = pod\<lparr>pod_DNSConfig := Some cfg\<rparr>
                            in Ret (finish_pod pod dnsClass)))))
      else Ret (finish_pod pod dnsClass))"

section \<open>The handler\<close>

text \<open>The part of the handler after the class has been applied.\<close>

definition respond ::
  "'r PodMutator \<Rightarrow> Request \<Rightarrow> DNSClass \<Rightarrow> 'r Pod \<times> dns_error option \<Rightarrow> Response outcome" where
  "respond p req dnsclass r =
     (case snd r of
        Some e \<Rightarrow> Ret (Allowed (dc_Name dnsclass @ '' '' @ ErrDNSConfig))
      | None \<Rightarrow>
          (case json_Marshal p (fst r) of
             None \<Rightarrow> Ret (Allowed ErrMarshal)
           | Some marshaledPod \<Rightarrow> Ret (PatchResponseFromRaw (Object_Raw req) marshaledPod)))"

definition Handle :: "'r PodMutator \<Rightarrow> Request \<Rightarrow> Response outcome" where
  "Handle p req =
     (case Decode p req of
        None \<Rightarrow> Ret (Allowed ErrPodDecode)
      | Some pod \<Rightarrow>
          (case getDNSClass p pod of
             (dnsclass, Some err) \<Rightarrow> Ret (Allowed err)
           | (dnsclass, None) \<Rightarrow>
               (if State (dc_Status dnsclass) \<noteq> StateReady
                then Ret (Allowed (dc_Name dnsclass @ '' '' @ ErrNotAvailableDNSClass))
                else obind (configureDNSForPod (text_template p) pod dnsclass)
                       (respond p req dnsclass))))"

section \<open>Lemmas on the choice\<close>

text \<open>When a class applies to a pod.\<close>

definition class_applies :: "'r Pod \<Rightarrow> DNSClass \<Rightarrow> bool" where
  "class_applies pod dc \<longleftrightarrow>
     pod_Namespace pod \<notin> set (elems (DisabledNamespaces (dc_Spec dc))) \<and>
     pod_DNSPolicy pod \<in> set (elems (AllowedDNSPolicies (dc_Spec dc))) \<and>
     (elems (AllowedNamespaces (dc_Spec dc)) = [] \<or>
      pod_Namespace pod \<in> set (elems (AllowedNamespaces (dc_Spec dc))))"

lemma select_DNSClass_find:
  "select_DNSClass pod items =
     (case find (class_applies pod) items of
        Some dc \<Rightarrow> (dc, None) | None \<Rightarrow> (empty_DNSClass, Some ErrNoDNSClass))"
  by (induction items) (auto simp: class_applies_def)

lemma getDNSClass_found:
  assumes "List_classes p = Inr items"
  shows "getDNSClass p pod = (dc, None) \<longleftrightarrow>
      (\<exists>before after. items = before @ dc # after \<and> class_applies pod dc \<and>
         (\<forall>c \<in> set before. \<not> class_applies pod c))"
  unfolding find_first_split [symmetric]
  using assms by (auto simp: getDNSClass_def select_DNSClass_find split: option.splits)

lemma getDNSClass_none:
  assumes "List_classes p = Inr items"
  shows "getDNSClass p pod = (empty_DNSClass, Some ErrNoDNSClass) \<longleftrightarrow>
      (\<forall>c \<in> set items. \<not> class_applies pod c)"
  using assms find_None_iff [of "class_applies pod" items]
  by (auto simp: getDNSClass_def select_DNSClass_find split: option.splits)

lemma getDNSClass_error:
  assumes "getDNSClass p pod = (dc, Some e)"
  shows "List_classes p = Inl e \<or>
    (\<exists>items. List_classes p = Inr items \<and> e = ErrNoDNSClass \<and> (\<forall>c \<in> set items. \<not> class_applies pod c))"
  using assms
  by (auto simp: getDNSClass_def select_DNSClass_find find_None_iff split: sum.splits option.splits)

text \<open>
  C18. The class chosen for a pod is the first one of the list that applies to it: the pod's
  namespace is not disabled (a disabled namespace wins over an allowed one), the pod's policy
  is allowed, and the namespace is allowed or the class names none. Without such a class the
  answer is the error \<open>no matching DNSClass found\<close>.
\<close>

theorem getDNSClass_first_applicable:
  assumes "List_classes p = Inr items"
  shows "(getDNSClass p pod = (dc, None) \<longleftrightarrow>
      (\<exists>before after. items = before @ dc # after \<and> class_applies pod dc \<and>
         (\<forall>c \<in> set before. \<not> class_applies pod c))) \<and>
    (getDNSClass p pod = (empty_DNSClass, Some ErrNoDNSClass) \<longleftrightarrow>
      (\<forall>c \<in> set items. \<not> class_applies pod c))"
  using getDNSClass_found [OF assms] getDNSClass_none [OF assms] by blast

text \<open>Objects the witnesses of this theory evaluate the handler on.\<close>

definition sample_pod :: "unit Pod" where
  "sample_pod = \<lparr>pod_Namespace = ''default'', pod_Annotations = None,
     pod_DNSPolicy = DNSClusterFirst, pod_DNSConfig = None, pod_Rest = ()\<rparr>"

definition sample_class :: DNSClass where
  "sample_class =
     \<lparr>dc_GroupKind = (''config.kubedns-shepherd.io'', ''DNSClass''), dc_Name = ''dns'',
      dc_Namespace = [], dc_Generation = 1, dc_ResourceVersion = ''1'',
      dc_Spec = \<lparr>AllowedNamespaces = None, DisabledNamespaces = Some [''kube-system''],
        AllowedDNSPolicies = Some [DNSClusterFirst, DNSNone], DNSPolicy = DNSNone,
        DNSConfig = Some \<lparr>Nameservers = None,
          Searches = Some [''{{ .podNamespace }}.svc.{{ .clusterDomain }}''], Options = None\<rparr>\<rparr>,
      dc_Status = \<lparr>Conditions = [], State = StateReady, st_DiscoveredFields =
        Some \<lparr>df_Nameservers = Some [''10.96.0.10''], df_ClusterDomain = ''cluster.local''\<rparr>\<rparr>\<rparr>"

definition sample_mutator :: "DNSClass list \<Rightarrow> unit PodMutator" where
  "sample_mutator items =
     \<lparr>Decode = (\<lambda>_. Some sample_pod), List_classes = Inr items, json_Marshal = (\<lambda>_. Some ''{}''),
      text_template = run_template (\<lambda>_ _. Inl ParseError)\<rparr>"

lemma sample_class_applies: "class_applies sample_pod sample_class"
  by (simp add: class_applies_def sample_pod_def sample_class_def)

theorem getDNSClass_first_applicable_witness:
  "getDNSClass (sample_mutator [sample_class]) sample_pod = (sample_class, None)"
proof -
  have l: "List_classes (sample_mutator [sample_class]) = Inr [sample_class]"
    by (simp add: sample_mutator_def)
  show ?thesis
    using getDNSClass_first_applicable [OF l, of sample_pod sample_class] sample_class_applies
    by (metis append_Nil empty_iff empty_set)
qed

section \<open>Rendering the search list\<close>

text \<open>The loop over the search templates, for any renderer that keeps the interface's laws.\<close>

context search_renderer
begin

lemma render_searches_eq:
  assumes "\<forall>s \<in> set ss. accepts s"
  shows "render_searches render m ss acc =
    (case find (\<lambda>s. \<not> set (keys s) \<subseteq> dom m) ss of
       Some t \<Rightarrow> Inl (SearchExecute t)
     | None \<Rightarrow> Inr (acc @ map (\<lambda>s. projr (render s m)) ss))"
  using assms
proof (induction ss arbitrary: acc)
  case Nil
  show ?case by simp
next
  case (Cons s ss)
  then have s: "accepts s" and ss: "\<forall>s \<in> set ss. accepts s" by simp_all
  show ?case
  proof (cases "set (keys s) \<subseteq> dom m")
    case True
    from render_ok [OF s this] obtain out where "render s m = Inr out" by blast
    with True Cons.IH [OF ss] show ?thesis by (simp split: option.split)
  next
    case False
    with render_missing [OF s this] show ?thesis by simp
  qed
qed

lemma render_searches_succeeds_iff:
  assumes "\<forall>s \<in> set ss. accepts s"
  shows "(\<exists>out. render_searches render m ss acc = Inr out) \<longleftrightarrow>
    (\<forall>s \<in> set ss. set (keys s) \<subseteq> dom m)"
  by (auto simp: render_searches_eq [OF assms] find_None_iff find_Some_iff split: option.split)

lemma render_searches_local:
  assumes "\<forall>s \<in> set ss. accepts s \<and> (\<forall>k \<in> set (keys s). m k = m' k)"
  shows "render_searches render m ss acc = render_searches render m' ss acc"
  using assms
proof (induction ss arbitrary: acc)
  case Nil
  show ?case by simp
next
  case (Cons s ss)
  then have "render s m = render s m'" using render_local by simp
  with Cons show ?case by (simp split: sum.split tmpl_error.split)
qed

end

text \<open>The first search that does not render, with the error the loop returns for it.\<close>

fun search_error :: "string \<Rightarrow> tmpl_error \<Rightarrow> dns_error" where
  "search_error search ParseError = SearchParse search"
| "search_error search ExecError = SearchExecute search"

lemma render_searches_first_error:
  "render_searches render m ss acc =
    (case find (\<lambda>s. isl (render s m)) ss of
       Some s \<Rightarrow> Inl (search_error s (projl (render s m)))
     | None \<Rightarrow> Inr (acc @ map (\<lambda>s. projr (render s m)) ss))"
proof (induction ss arbitrary: acc)
  case (Cons s ss)
  show ?case
  proof (cases "render s m")
    case (Inl e)
    then show ?thesis by (cases e) simp_all
  next
    case (Inr out)
    then show ?thesis by (simp add: Cons.IH split: option.split)
  qed
qed simp

lemma render_simple_searches:
  assumes "\<forall>s \<in> set ss. simple_template s"
  shows "render_searches (run_template other) m ss [] =
    (case find (\<lambda>s. \<not> set (scan_keys s) \<subseteq> dom m) ss of
       Some t \<Rightarrow> Inl (SearchExecute t) | None \<Rightarrow> Inr (map (subst_keys m) ss))"
proof -
  have "map (\<lambda>s. projr (run_template other s m)) ss = map (subst_keys m) ss"
    if "find (\<lambda>s. \<not> set (scan_keys s) \<subseteq> dom m) ss = None"
    using that assms by (auto simp: find_None_iff run_template_simple)
  then show ?thesis
    using go_template.render_searches_eq [OF assms, of other m "[]"] by (auto split: option.split)
qed

section \<open>What the configuration of a pod promises\<close>

lemma parameterMap_simps [simp]:
  "parameterMap ns d ''podNamespace'' = (if ns = [] then None else Some ns)"
  "parameterMap ns d ''clusterDomain'' = (if d = [] then None else Some d)"
  by (simp_all add: parameterMap_def Let_def)

lemma dom_parameterMap:
  "dom (parameterMap ns d) =
     (if ns = [] then {} else {''podNamespace''}) \<union> (if d = [] then {} else {''clusterDomain''})"
  by (simp add: parameterMap_def Let_def)

lemma finish_pod_fields [simp]:
  "pod_Namespace (fst (finish_pod pod dc)) = pod_Namespace pod"
  "pod_Rest (fst (finish_pod pod dc)) = pod_Rest pod"
  "pod_DNSConfig (fst (finish_pod pod dc)) = pod_DNSConfig pod"
  "pod_DNSPolicy (fst (finish_pod pod dc)) = DNSPolicy (dc_Spec dc)"
  "pod_Annotations (fst (finish_pod pod dc)) =
     Some ((case pod_Annotations pod of None \<Rightarrow> Map.empty | Some a \<Rightarrow> a)
       (DNSClassName \<mapsto> dc_Name dc))"
  "snd (finish_pod pod dc) = None"
  by (simp_all add: finish_pod_def updateAnnotation_def Let_def)

lemma configure_other_policy:
  "DNSPolicy (dc_Spec dc) \<noteq> DNSNone \<Longrightarrow> configureDNSForPod render pod dc = Ret (finish_pod pod dc)"
  by (simp add: configureDNSForPod_def)

lemma configure_panic_iff:
  "configureDNSForPod render pod dc = Panic \<longleftrightarrow>
     DNSPolicy (dc_Spec dc) = DNSNone \<and> st_DiscoveredFields (dc_Status dc) = None"
  by (auto simp: configureDNSForPod_def Let_def split: option.split sum.split)

text \<open>The configuration a class and the discovered fields give with rendered searches.\<close>

definition class_config :: "DNSClass \<Rightarrow> PodDNSConfig" where
  "class_config dc =
     (case DNSConfig (dc_Spec dc) of None \<Rightarrow> empty_PodDNSConfig | Some c \<Rightarrow> c)"

definition applied_config :: "DNSClass \<Rightarrow> DiscoveredFields \<Rightarrow> string list \<Rightarrow> PodDNSConfig" where
  "applied_config dc df searches =
     (class_config dc)
       \<lparr>Searches := Some searches,
        Nameservers := (case Nameservers (class_config dc) of
                          None \<Rightarrow> df_Nameservers df | Some ns \<Rightarrow> Some ns)\<rparr>"

lemma applied_config_if:
  "applied_config dc df searches =
     (if Nameservers (class_config dc) = None
      then (class_config dc)\<lparr>Searches := Some searches, Nameservers := df_Nameservers df\<rparr>
      else (class_config dc)\<lparr>Searches := Some searches\<rparr>)"
  by (cases "class_config dc") (auto simp: applied_config_def)

lemma class_searches_config: "class_searches dc = elems (Searches (class_config dc))"
  by (simp add: class_searches_def class_config_def empty_PodDNSConfig_def split: option.split)

lemma configure_none_policy:
  assumes "DNSPolicy (dc_Spec dc) = DNSNone" and "st_DiscoveredFields (dc_Status dc) = Some df"
  shows "configureDNSForPod render pod dc =
    (case render_searches render (parameterMap (pod_Namespace pod) (df_ClusterDomain df))
        (class_searches dc) [] of
       Inl e \<Rightarrow> Ret (pod, Some e)
     | Inr searches \<Rightarrow>
         (if Nameservers (class_config dc) = None \<and> df_Nameservers df = None
          then Ret (pod\<lparr>pod_DNSConfig := Some ((class_config dc)\<lparr>Searches := Some searches\<rparr>)\<rparr>,
            Some NoNameservers)
          else Ret (finish_pod
            (pod\<lparr>pod_DNSConfig := Some (applied_config dc df searches)\<rparr>) dc)))"
proof -
  have cfg: "(case DNSConfig (dc_Spec dc) of None \<Rightarrow> empty_PodDNSConfig | Some c \<Rightarrow> c) = class_config dc"
    by (simp add: class_config_def)
  show ?thesis
    using assms unfolding configureDNSForPod_def class_searches_config cfg
    by (auto simp: Let_def applied_config_if split: sum.split)
qed

lemma configure_Ret_cases:
  assumes "configureDNSForPod render pod dc = Ret (pod', None)"
  obtains (other) "DNSPolicy (dc_Spec dc) \<noteq> DNSNone" "pod' = fst (finish_pod pod dc)"
  | (none) df searches where "DNSPolicy (dc_Spec dc) = DNSNone"
      "st_DiscoveredFields (dc_Status dc) = Some df"
      "render_searches render (parameterMap (pod_Namespace pod) (df_ClusterDomain df))
        (class_searches dc) [] = Inr searches"
      "Nameservers (class_config dc) \<noteq> None \<or> df_Nameservers df \<noteq> None"
      "pod' = fst (finish_pod (pod\<lparr>pod_DNSConfig := Some (applied_config dc df searches)\<rparr>) dc)"
proof (cases "DNSPolicy (dc_Spec dc) = DNSNone")
  case False
  with assms have "pod' = fst (finish_pod pod dc)" by (simp add: configure_other_policy)
  with False show ?thesis by (rule other)
next
  case True
  with assms obtain df where df: "st_DiscoveredFields (dc_Status dc) = Some df"
    by (cases "st_DiscoveredFields (dc_Status dc)") (auto simp: configureDNSForPod_def)
  show ?thesis
    using assms unfolding configure_none_policy [OF True df]
    by (auto split: sum.splits if_splits intro: none [OF True df])
qed

definition pod_params :: "'r Pod \<Rightarrow> DiscoveredFields \<Rightarrow> params" where
  "pod_params pod df = parameterMap (pod_Namespace pod) (df_ClusterDomain df)"

lemma dom_pod_params:
  "dom (pod_params pod df) =
     (if pod_Namespace pod = [] then {} else {''podNamespace''}) \<union>
     (if df_ClusterDomain df = [] then {} else {''clusterDomain''})"
  by (simp add: pod_params_def dom_parameterMap)

text \<open>
  C6. What a class does to a pod, on every branch. With another policy than \<open>None\<close> the pod gets
  the policy and the annotation. With \<open>None\<close> and no discovered fields the call panics. Otherwise
  the first search that does not render stops the configuration with the pod untouched: with a
  parse error when it is malformed, with an execution error when it uses a key without a value.
  When all render, a class and a cluster without nameservers give the nameserver error; else the
  pod gets the class's configuration with the rendered searches and its nameservers or, when it
  has none, the discovered ones, together with the policy and the annotation. What a template
  renders to is \<open>rendered\<close>: for a field template the pod's namespace and the discovered domain
  are substituted, and for what is beyond the field templates and their slips it is the
  arbitrary engine \<open>other\<close>.
\<close>

theorem configureDNSForPod_spec:
  "configureDNSForPod (run_template other) pod dc =
    (if DNSPolicy (dc_Spec dc) \<noteq> DNSNone then Ret (finish_pod pod dc)
     else case st_DiscoveredFields (dc_Status dc) of
       None \<Rightarrow> Panic
     | Some df \<Rightarrow>
         (case find (\<lambda>s. isl (rendered other (pod_params pod df) s)) (class_searches dc) of
            Some s \<Rightarrow> Ret (pod, Some (search_error s (projl (rendered other (pod_params pod df) s))))
          | None \<Rightarrow>
              (let searches = map (\<lambda>s. projr (rendered other (pod_params pod df) s)) (class_searches dc)
               in if Nameservers (class_config dc) = None \<and> df_Nameservers df = None
                  then Ret (pod\<lparr>pod_DNSConfig := Some ((class_config dc)\<lparr>Searches := Some searches\<rparr>)\<rparr>,
                    Some NoNameservers)
                  else Ret (finish_pod
                    (pod\<lparr>pod_DNSConfig := Some (applied_config dc df searches)\<rparr>) dc))))"
proof (cases "DNSPolicy (dc_Spec dc) = DNSNone")
  case True
  show ?thesis
  proof (cases "st_DiscoveredFields (dc_Status dc)")
    case None
    with True show ?thesis by (simp add: configure_panic_iff)
  next
    case (Some df)
    show ?thesis
      unfolding configure_none_policy [OF True Some] render_searches_first_error run_template_rendered
      using True Some by (simp add: pod_params_def Let_def split: option.split)
  qed
qed (simp add: configure_other_policy)

text \<open>
  The configuration of a pod panics exactly when the class has the policy \<open>None\<close> and its
  status holds no discovered fields; no pod, renderer or search list makes it panic otherwise.
\<close>

theorem configureDNSForPod_panic_iff:
  "configureDNSForPod render pod dc = Panic \<longleftrightarrow>
     DNSPolicy (dc_Spec dc) = DNSNone \<and> st_DiscoveredFields (dc_Status dc) = None"
  by (rule configure_panic_iff)

text \<open>
  A successful configuration changes only the DNS policy, the DNS configuration and the
  one annotation of the pod: the policy becomes the class's, the annotation names the class,
  and the configuration is left alone unless the class has the policy \<open>None\<close>, when it has
  a nameserver list and rendered searches.
\<close>

theorem configureDNSForPod_frame:
  assumes "configureDNSForPod render pod dc = Ret (pod', None)"
  shows "pod_Namespace pod' = pod_Namespace pod \<and> pod_Rest pod' = pod_Rest pod \<and>
    pod_DNSPolicy pod' = DNSPolicy (dc_Spec dc) \<and>
    (\<exists>a. pod_Annotations pod' = Some a \<and> a DNSClassName = Some (dc_Name dc) \<and>
       (\<forall>k. k \<noteq> DNSClassName \<longrightarrow> a k = (case pod_Annotations pod of None \<Rightarrow> None | Some b \<Rightarrow> b k))) \<and>
    (DNSPolicy (dc_Spec dc) \<noteq> DNSNone \<longrightarrow> pod_DNSConfig pod' = pod_DNSConfig pod) \<and>
    (DNSPolicy (dc_Spec dc) = DNSNone \<longrightarrow>
       (\<exists>cfg. pod_DNSConfig pod' = Some cfg \<and> Nameservers cfg \<noteq> None \<and> Searches cfg \<noteq> None \<and>
          Options cfg = Options (class_config dc)))"
  using assms
proof (cases rule: configure_Ret_cases)
  case other
  then show ?thesis by (simp split: option.split)
next
  case (none df searches)
  then have "Nameservers (applied_config dc df searches) \<noteq> None"
    "Searches (applied_config dc df searches) = Some searches"
    "Options (applied_config dc df searches) = Options (class_config dc)"
    by (auto simp: applied_config_def split: option.split)
  with none show ?thesis by (simp split: option.split)
qed

theorem configureDNSForPod_frame_witness:
  "\<exists>pod'. configureDNSForPod (\<lambda>_ _. Inr []) sample_pod sample_class = Ret (pod', None) \<and>
     pod_DNSPolicy pod' = DNSNone"
proof -
  obtain pod' where c: "configureDNSForPod (\<lambda>_ _. Inr []) sample_pod sample_class = Ret (pod', None)"
    by (simp add: configureDNSForPod_def sample_class_def finish_pod_def)
  from configureDNSForPod_frame [OF c] have "pod_DNSPolicy pod' = DNSPolicy (dc_Spec sample_class)"
    by blast
  with c show ?thesis by (simp add: sample_class_def)
qed

text \<open>
  Admitting a pod again changes nothing: a pod configured by a class and then configured by
  the same class is the same pod, for any renderer.
\<close>

theorem configureDNSForPod_idempotent:
  assumes "configureDNSForPod render pod dc = Ret (pod', None)"
  shows "configureDNSForPod render pod' dc = Ret (pod', None)"
  using assms
proof (cases rule: configure_Ret_cases)
  case other
  then show ?thesis
    by (cases pod) (auto simp: configure_other_policy finish_pod_def updateAnnotation_def Let_def
        split: option.split)
next
  case (none df searches)
  then show ?thesis
    by (cases pod) (auto simp: configure_none_policy [OF none(1,2)] finish_pod_def
        updateAnnotation_def Let_def split: option.split)
qed

theorem configureDNSForPod_idempotent_witness:
  "\<exists>pod'. configureDNSForPod (\<lambda>_ _. Inr []) sample_pod sample_class = Ret (pod', None) \<and>
     configureDNSForPod (\<lambda>_ _. Inr []) pod' sample_class = Ret (pod', None)"
proof -
  obtain pod' where c: "configureDNSForPod (\<lambda>_ _. Inr []) sample_pod sample_class = Ret (pod', None)"
    by (simp add: configureDNSForPod_def sample_class_def finish_pod_def)
  from configureDNSForPod_idempotent [OF c] c show ?thesis by blast
qed

section \<open>What the handler promises\<close>

lemma Handle_found:
  assumes "Decode p req = Some pod" and "getDNSClass p pod = (dc, None)"
    and "State (dc_Status dc) = StateReady"
  shows "Handle p req =
    obind (configureDNSForPod (text_template p) pod dc) (respond p req dc)"
  using assms by (simp add: Handle_def)

lemma respond_patch: "respond p req dc (pod', err) = Ret (PatchResponseFromRaw orig out) \<longleftrightarrow>
    err = None \<and> json_Marshal p pod' = Some out \<and> orig = Object_Raw req"
  by (auto simp: respond_def split: option.split)

lemma respond_allowed: "respond p req dc (pod', err) = Ret (Allowed msg) \<longleftrightarrow>
    (err \<noteq> None \<and> msg = dc_Name dc @ '' '' @ ErrDNSConfig) \<or>
    (err = None \<and> json_Marshal p pod' = None \<and> msg = ErrMarshal)"
  by (auto simp: respond_def split: option.split)

lemma respond_no_panic [simp]: "respond p req dc r \<noteq> Panic"
  by (simp add: respond_def split: option.split)

lemma Handle_patch_cases:
  assumes "Handle p req = Ret (PatchResponseFromRaw orig out)"
  obtains pod dc pod' where "Decode p req = Some pod" "getDNSClass p pod = (dc, None)"
    "State (dc_Status dc) = StateReady"
    "configureDNSForPod (text_template p) pod dc = Ret (pod', None)"
    "json_Marshal p pod' = Some out" "orig = Object_Raw req"
  using assms unfolding Handle_def
  by (auto simp: outcome_simps respond_patch split: option.splits prod.splits if_splits)

text \<open>
  The handler replaces a pod exactly when it decodes, a class applies and is ready, its
  configuration succeeds and the result can be encoded; the patch is computed from the
  original bytes of the request and the encoding of the configured pod.
\<close>

theorem Handle_patches_iff:
  "Handle p req = Ret (PatchResponseFromRaw orig out) \<longleftrightarrow>
     (\<exists>pod dc pod'. Decode p req = Some pod \<and> getDNSClass p pod = (dc, None) \<and>
        State (dc_Status dc) = StateReady \<and>
        configureDNSForPod (text_template p) pod dc = Ret (pod', None) \<and>
        json_Marshal p pod' = Some out \<and> orig = Object_Raw req)"
proof
  assume "Handle p req = Ret (PatchResponseFromRaw orig out)"
  then show "\<exists>pod dc pod'. Decode p req = Some pod \<and> getDNSClass p pod = (dc, None) \<and>
        State (dc_Status dc) = StateReady \<and>
        configureDNSForPod (text_template p) pod dc = Ret (pod', None) \<and>
        json_Marshal p pod' = Some out \<and> orig = Object_Raw req"
    by (rule Handle_patch_cases) blast
next
  assume "\<exists>pod dc pod'. Decode p req = Some pod \<and> getDNSClass p pod = (dc, None) \<and>
        State (dc_Status dc) = StateReady \<and>
        configureDNSForPod (text_template p) pod dc = Ret (pod', None) \<and>
        json_Marshal p pod' = Some out \<and> orig = Object_Raw req"
  then show "Handle p req = Ret (PatchResponseFromRaw orig out)"
    by (auto simp: Handle_found respond_patch)
qed

text \<open>
  C30. The handler panics exactly when the class chosen for the decoded pod is ready, has the
  policy \<open>None\<close> and no discovered fields in its status. A class that was ready under another
  policy and whose policy was just changed is in this state until it is reconciled.
\<close>

theorem Handle_panics_iff:
  "Handle p req = Panic \<longleftrightarrow>
     (\<exists>pod dc. Decode p req = Some pod \<and> getDNSClass p pod = (dc, None) \<and>
        State (dc_Status dc) = StateReady \<and> DNSPolicy (dc_Spec dc) = DNSNone \<and>
        st_DiscoveredFields (dc_Status dc) = None)"
proof
  assume "Handle p req = Panic"
  then show "\<exists>pod dc. Decode p req = Some pod \<and> getDNSClass p pod = (dc, None) \<and>
        State (dc_Status dc) = StateReady \<and> DNSPolicy (dc_Spec dc) = DNSNone \<and>
        st_DiscoveredFields (dc_Status dc) = None"
    unfolding Handle_def
    by (auto simp: obind_Panic_iff configure_panic_iff split: option.splits prod.splits if_splits)
next
  assume "\<exists>pod dc. Decode p req = Some pod \<and> getDNSClass p pod = (dc, None) \<and>
        State (dc_Status dc) = StateReady \<and> DNSPolicy (dc_Spec dc) = DNSNone \<and>
        st_DiscoveredFields (dc_Status dc) = None"
  then show "Handle p req = Panic"
    by (auto simp: Handle_found configure_panic_iff obind_Panic_iff)
qed

text \<open>
  A pod the webhook does not replace is admitted as it is, with the reason as the message:
  it does not decode, the list of classes fails, no class applies, the class is not ready, its
  configuration fails, or the result cannot be encoded. The handler never refuses a pod.
\<close>

theorem Handle_allowed_reasons:
  assumes "Handle p req = Ret (Allowed msg)"
  shows "(Decode p req = None \<and> msg = ErrPodDecode) \<or>
    (\<exists>pod. Decode p req = Some pod \<and>
       ((List_classes p = Inl msg) \<or>
        (\<exists>items. List_classes p = Inr items \<and> msg = ErrNoDNSClass \<and>
           (\<forall>c \<in> set items. \<not> class_applies pod c)) \<or>
        (\<exists>dc. getDNSClass p pod = (dc, None) \<and>
          ((State (dc_Status dc) \<noteq> StateReady \<and>
              msg = dc_Name dc @ '' '' @ ErrNotAvailableDNSClass) \<or>
           (\<exists>pod' e. configureDNSForPod (text_template p) pod dc = Ret (pod', Some e) \<and>
              msg = dc_Name dc @ '' '' @ ErrDNSConfig) \<or>
           (\<exists>pod'. configureDNSForPod (text_template p) pod dc = Ret (pod', None) \<and>
              json_Marshal p pod' = None \<and> msg = ErrMarshal)))))"
proof (cases "Decode p req")
  case None
  with assms show ?thesis by (simp add: Handle_def)
next
  case (Some pod)
  obtain dc err where g: "getDNSClass p pod = (dc, err)" by (cases "getDNSClass p pod")
  show ?thesis
  proof (cases err)
    case err: (Some e)
    with assms g Some have msg: "msg = e" by (simp add: Handle_def)
    from getDNSClass_error [OF g [unfolded err]] Some msg show ?thesis by blast
  next
    case None
    note g = g [unfolded None]
    show ?thesis
    proof (cases "State (dc_Status dc) = StateReady")
      case False
      with assms g Some have "msg = dc_Name dc @ '' '' @ ErrNotAvailableDNSClass"
        by (simp add: Handle_def)
      with False g Some show ?thesis by blast
    next
      case True
      from assms [unfolded Handle_found [OF Some g True]]
      have "(\<exists>pod' e. configureDNSForPod (text_template p) pod dc = Ret (pod', Some e) \<and>
              msg = dc_Name dc @ '' '' @ ErrDNSConfig) \<or>
           (\<exists>pod'. configureDNSForPod (text_template p) pod dc = Ret (pod', None) \<and>
              json_Marshal p pod' = None \<and> msg = ErrMarshal)"
        by (auto simp: obind_Ret_iff respond_allowed)
      with g Some show ?thesis by blast
    qed
  qed
qed

theorem Handle_allowed_reasons_witness:
  "Handle (sample_mutator []) \<lparr>Object_Raw = []\<rparr> = Ret (Allowed ErrNoDNSClass) \<and>
   (\<exists>pod. Decode (sample_mutator []) \<lparr>Object_Raw = []\<rparr> = Some pod)"
proof -
  have h: "Handle (sample_mutator []) \<lparr>Object_Raw = []\<rparr> = Ret (Allowed ErrNoDNSClass)"
    by (simp add: Handle_def sample_mutator_def getDNSClass_def)
  have "ErrNoDNSClass \<noteq> ErrPodDecode"
    by (simp add: ErrNoDNSClass_def ErrPodDecode_def)
  with h Handle_allowed_reasons [OF h] show ?thesis by blast
qed

end
