(* ===== verification/DNSClass_Webhook.thy ===== *)
theory DNSClass_Webhook
  imports Template_Keys
begin

text \<open>
  The defaulting and validating webhooks of \<open>internal/webhook/v1alpha1/dnsclass_webhook.go\<close>.
  Log output is left out; everything the two handlers return or write to the object is
  modelled, the error texts included.
\<close>

section \<open>Constants\<close>

definition ValidDNSPolicies :: "DNSPolicy_t list" where
  "ValidDNSPolicies = [DNSDefault, DNSClusterFirst, DNSClusterFirstWithHostNet, DNSNone]"

definition DefaultDNSPolicies :: "DNSPolicy_t list" where
  "DefaultDNSPolicies = [DNSClusterFirst, DNSClusterFirstWithHostNet, DNSNone]"

definition ValidTemplateKeys :: "string list" where
  "ValidTemplateKeys = [''podNamespace'', ''clusterDomain'']"

section \<open>Defaulting\<close>

text \<open>The two assignments of \<open>Default\<close>, in the order of the code.\<close>

definition default_AllowedDNSPolicies :: "DNSClass \<Rightarrow> DNSClass" where
  "default_AllowedDNSPolicies dc =
     (if AllowedDNSPolicies (dc_Spec dc) = None
      then dc\<lparr>dc_Spec := (dc_Spec dc)\<lparr>AllowedDNSPolicies := Some DefaultDNSPolicies\<rparr>\<rparr>
      else dc)"

definition default_DNSPolicy :: "DNSClass \<Rightarrow> DNSClass" where
  "default_DNSPolicy dc =
     (if DNSPolicy (dc_Spec dc) = []
      then dc\<lparr>dc_Spec := (dc_Spec dc)\<lparr>DNSPolicy := DNSNone\<rparr>\<rparr>
      else dc)"

definition Default :: "DNSClass \<Rightarrow> DNSClass" where
  "Default dc = default_DNSPolicy (default_AllowedDNSPolicies dc)"

section \<open>Validation\<close>

text \<open>
  \<open>field.Invalid(path, value, detail)\<close>, an entry of a \<open>field.ErrorList\<close>, and the error
  \<open>apierrors.NewInvalid(kind, name, errs)\<close> that rejects the object.
\<close>

record field_error =
  fe_Field :: "string list"
  fe_BadValue :: string
  fe_Detail :: string

datatype admission_error = NewInvalid "string \<times> string" string "field_error list"

definition Invalid :: "string list \<Rightarrow> string \<Rightarrow> string \<Rightarrow> field_error" where
  "Invalid path v detail = \<lparr>fe_Field = path, fe_BadValue = v, fe_Detail = detail\<rparr>"

definition invalid_allowed_policy :: "DNSClass \<Rightarrow> DNSPolicy_t \<Rightarrow> field_error" where
  "invalid_allowed_policy dc p =
     Invalid [''spec'', ''dnsPolicy''] (dc_Name dc)
       (''invalid DNS policy: '' @ p @ ''. Allowed policies: '' @ sprint_list ValidDNSPolicies)"

definition invalid_policy :: "DNSClass \<Rightarrow> field_error" where
  "invalid_policy dc =
     Invalid [''spec'', ''dnsPolicy''] (dc_Name dc)
       (''invalid DNSPolicy: '' @ DNSPolicy (dc_Spec dc) @ ''. Allowed policies: ''
          @ sprint_list ValidDNSPolicies)"

definition config_not_allowed :: "DNSClass \<Rightarrow> field_error" where
  "config_not_allowed dc =
     Invalid [''spec'', ''dnsPolicy''] (dc_Name dc)
       (''DNSConfig cannot be set when DNSPolicy is '' @ DNSPolicy (dc_Spec dc))"

definition invalid_key :: "DNSClass \<Rightarrow> string \<Rightarrow> field_error" where
  "invalid_key dc key =
     Invalid [''spec'', ''dnsConfig'', ''searches''] (dc_Name dc)
       (''invalid template key: '' @ key @ '' in searches. Allowed keys: ''
          @ sprint_list ValidTemplateKeys)"

lemmas validation_errors =
  invalid_allowed_policy_def invalid_policy_def config_not_allowed_def invalid_key_def Invalid_def

fun check_allowed_policies :: "DNSClass \<Rightarrow> field_error list \<Rightarrow> DNSPolicy_t list \<Rightarrow> field_error list" where
  "check_allowed_policies dc allErrs [] = allErrs"
| "check_allowed_policies dc allErrs (p # ps) =
     (if \<not> slices_Contains ValidDNSPolicies p
      then check_allowed_policies dc (allErrs @ [invalid_allowed_policy dc p]) ps
      else check_allowed_policies dc allErrs ps)"

fun check_keys :: "DNSClass \<Rightarrow> field_error list \<Rightarrow> string list \<Rightarrow> field_error list" where
  "check_keys dc allErrs [] = allErrs"
| "check_keys dc allErrs (key # ks) =
     (if \<not> slices_Contains ValidTemplateKeys key
      then check_keys dc (allErrs @ [invalid_key dc key]) ks
      else check_keys dc allErrs ks)"

definition validate :: "DNSClass \<Rightarrow> admission_error option" where
  "validate dc =
     (let spec = dc_Spec dc;
          errs = check_allowed_policies dc [] (elems (AllowedDNSPolicies spec));
          errs = (if \<not> slices_Contains ValidDNSPolicies (DNSPolicy spec)
                  then errs @ [invalid_policy dc] else errs);
          errs = (if DNSPolicy spec \<noteq> DNSNone \<and> DNSConfig spec \<noteq> None
                  then errs @ [config_not_allowed dc] else errs);
          errs = check_keys dc errs (ExtractTemplateKeysRegex dc)
      in if length errs = 0 then None
         else Some (NewInvalid (dc_GroupKind dc) (dc_Name dc) errs))"

definition ValidateCreate :: "DNSClass \<Rightarrow> admission_error option" where
  "ValidateCreate obj = validate obj"

definition ValidateUpdate :: "DNSClass \<Rightarrow> DNSClass \<Rightarrow> admission_error option" where
  "ValidateUpdate oldObj newObj = validate newObj"

definition ValidateDelete :: "DNSClass \<Rightarrow> admission_error option" where
  "ValidateDelete obj = None"

text \<open>What \<open>SetupDNSClassWebhookWithManager\<close> asks of the manager for the kind.\<close>

record webhook_setup =
  wh_Kind :: string
  wh_Default :: "DNSClass \<Rightarrow> DNSClass"
  wh_ValidateCreate :: "DNSClass \<Rightarrow> admission_error option"
  wh_ValidateUpdate :: "DNSClass \<Rightarrow> DNSClass \<Rightarrow> admission_error option"
  wh_ValidateDelete :: "DNSClass \<Rightarrow> admission_error option"

definition SetupDNSClassWebhookWithManager :: webhook_setup where
  "SetupDNSClassWebhookWithManager =
     \<lparr>wh_Kind = ''DNSClass'', wh_Default = Default, wh_ValidateCreate = ValidateCreate,
      wh_ValidateUpdate = ValidateUpdate, wh_ValidateDelete = ValidateDelete\<rparr>"

section \<open>What validation promises\<close>

text \<open>The rules a class has to satisfy, stated on its specification.\<close>

definition valid_class :: "DNSClass \<Rightarrow> bool" where
  "valid_class dc \<longleftrightarrow>
     set (elems (AllowedDNSPolicies (dc_Spec dc))) \<subseteq> set ValidDNSPolicies \<and>
     DNSPolicy (dc_Spec dc) \<in> set ValidDNSPolicies \<and>
     (DNSConfig (dc_Spec dc) \<noteq> None \<longrightarrow> DNSPolicy (dc_Spec dc) = DNSNone) \<and>
     (\<forall>s \<in> set (class_searches dc). set (scan_keys s) \<subseteq> set ValidTemplateKeys)"

text \<open>The errors, rule by rule, in the order of the checks.\<close>

definition rule_errors :: "DNSClass \<Rightarrow> field_error list" where
  "rule_errors dc =
     map (invalid_allowed_policy dc)
       (filter (\<lambda>p. p \<notin> set ValidDNSPolicies) (elems (AllowedDNSPolicies (dc_Spec dc))))
     @ (if DNSPolicy (dc_Spec dc) \<in> set ValidDNSPolicies then [] else [invalid_policy dc])
     @ (if DNSPolicy (dc_Spec dc) \<noteq> DNSNone \<and> DNSConfig (dc_Spec dc) \<noteq> None
        then [config_not_allowed dc] else [])
     @ map (invalid_key dc)
         (filter (\<lambda>k. k \<notin> set ValidTemplateKeys) (ExtractTemplateKeysRegex dc))"

lemma check_allowed_policies_eq:
  "check_allowed_policies dc errs ps =
     errs @ map (invalid_allowed_policy dc) (filter (\<lambda>p. p \<notin> set ValidDNSPolicies) ps)"
  by (induction ps arbitrary: errs) auto

lemma check_keys_eq:
  "check_keys dc errs ks =
     errs @ map (invalid_key dc) (filter (\<lambda>k. k \<notin> set ValidTemplateKeys) ks)"
  by (induction ks arbitrary: errs) auto

lemma validate_rule_errors:
  "validate dc =
     (if rule_errors dc = [] then None
      else Some (NewInvalid (dc_GroupKind dc) (dc_Name dc) (rule_errors dc)))"
  unfolding validate_def rule_errors_def Let_def check_allowed_policies_eq check_keys_eq
  by simp

lemma rule_errors_empty: "rule_errors dc = [] \<longleftrightarrow> valid_class dc"
  unfolding rule_errors_def valid_class_def
  using tk.all_keys_iff [of dc "\<lambda>k. k \<in> set ValidTemplateKeys"]
  by (auto simp: filter_empty_conv subset_iff)

lemma validate_None: "validate dc = None \<longleftrightarrow> valid_class dc"
  by (simp add: validate_rule_errors rule_errors_empty)

text \<open>
  The validating webhook accepts a DNSClass, on creation and on update, exactly when every
  allowed policy and the policy itself are valid, a DNS configuration comes only with the
  policy \<open>None\<close>, and every key the search templates use is one the controller supplies.
\<close>

theorem validate_accepts_iff:
  "(ValidateCreate dc = None \<longleftrightarrow> valid_class dc) \<and> (ValidateUpdate old dc = None \<longleftrightarrow> valid_class dc)"
  by (simp add: ValidateCreate_def ValidateUpdate_def validate_None)

text \<open>
  C39. A rejection reports every violated rule: one error for each invalid entry of the allowed
  policies, one for an invalid policy, one for a configuration without the policy \<open>None\<close>, one
  for each distinct unsupported key, in this order, and no other error.
\<close>

theorem validate_reports_all:
  assumes "validate dc = Some (NewInvalid gk name errs)"
  shows "gk = dc_GroupKind dc \<and> name = dc_Name dc \<and> errs = rule_errors dc \<and> errs \<noteq> []"
  using assms by (auto simp: validate_rule_errors split: if_splits)

definition bad_policy_class :: DNSClass where
  "bad_policy_class = empty_DNSClass\<lparr>dc_Spec := empty_DNSClassSpec\<lparr>DNSPolicy := ''X''\<rparr>\<rparr>"

theorem validate_reports_all_witness:
  "validate bad_policy_class =
     Some (NewInvalid ([], []) [] [invalid_policy bad_policy_class]) \<and>
   [invalid_policy bad_policy_class] = rule_errors bad_policy_class"
proof -
  have "rule_errors bad_policy_class = [invalid_policy bad_policy_class]"
    by (simp add: rule_errors_def bad_policy_class_def empty_DNSClass_def empty_DNSClassSpec_def
        ValidDNSPolicies_def policy_defs ExtractTemplateKeysRegex_def)
  then have v: "validate bad_policy_class =
      Some (NewInvalid ([], []) [] [invalid_policy bad_policy_class])"
    by (simp add: validate_rule_errors bad_policy_class_def empty_DNSClass_def)
  show ?thesis
    using v validate_reports_all [OF v] by blast
qed

section \<open>Defaulting and validation together\<close>

lemma Default_fields [simp]:
  "dc_Name (Default dc) = dc_Name dc"
  "dc_GroupKind (Default dc) = dc_GroupKind dc"
  "dc_Namespace (Default dc) = dc_Namespace dc"
  "dc_Generation (Default dc) = dc_Generation dc"
  "dc_Status (Default dc) = dc_Status dc"
  "AllowedNamespaces (dc_Spec (Default dc)) = AllowedNamespaces (dc_Spec dc)"
  "DisabledNamespaces (dc_Spec (Default dc)) = DisabledNamespaces (dc_Spec dc)"
  "DNSConfig (dc_Spec (Default dc)) = DNSConfig (dc_Spec dc)"
  "AllowedDNSPolicies (dc_Spec (Default dc)) =
     (case AllowedDNSPolicies (dc_Spec dc) of None \<Rightarrow> Some DefaultDNSPolicies | Some ps \<Rightarrow> Some ps)"
  "DNSPolicy (dc_Spec (Default dc)) =
     (if DNSPolicy (dc_Spec dc) = [] then DNSNone else DNSPolicy (dc_Spec dc))"
  by (auto simp: Default_def default_DNSPolicy_def default_AllowedDNSPolicies_def
      split: option.splits)

lemma class_searches_Default [simp]: "class_searches (Default dc) = class_searches dc"
  by (simp add: class_searches_def)

lemma default_policies_valid: "set DefaultDNSPolicies \<subseteq> set ValidDNSPolicies" "DNSNone \<in> set ValidDNSPolicies"
  by (auto simp: DefaultDNSPolicies_def ValidDNSPolicies_def)

lemma policies_nonempty: "p \<in> set ValidDNSPolicies \<Longrightarrow> p \<noteq> []"
  by (auto simp: ValidDNSPolicies_def policy_defs)

text \<open>The rules on what the user wrote, before defaulting: an omitted policy means \<open>None\<close>.\<close>

definition valid_request :: "DNSClass \<Rightarrow> bool" where
  "valid_request dc \<longleftrightarrow>
     set (elems (AllowedDNSPolicies (dc_Spec dc))) \<subseteq> set ValidDNSPolicies \<and>
     (DNSPolicy (dc_Spec dc) = [] \<or> DNSPolicy (dc_Spec dc) = DNSNone \<or>
        DNSPolicy (dc_Spec dc) \<in> set ValidDNSPolicies \<and> DNSConfig (dc_Spec dc) = None) \<and>
     (\<forall>s \<in> set (class_searches dc). set (scan_keys s) \<subseteq> set ValidTemplateKeys)"

lemma valid_class_Default: "valid_class (Default dc) \<longleftrightarrow> valid_request dc"
  using default_policies_valid policies_nonempty
  by (auto simp: valid_class_def valid_request_def split: option.splits)

text \<open>
  C7. The two admission webhooks together accept a user's object exactly when the policies
  the user wrote are valid (an omitted policy stands for \<open>None\<close>, omitted allowed policies for
  the defaults), a configuration is not combined with another policy, and the template keys
  are supported; the object they let through has a policy and allowed policies.
\<close>

theorem admission_accepts_iff:
  "(ValidateCreate (Default dc) = None \<longleftrightarrow> valid_request dc) \<and>
   DNSPolicy (dc_Spec (Default dc)) \<noteq> [] \<and> AllowedDNSPolicies (dc_Spec (Default dc)) \<noteq> None"
  by (auto simp: ValidateCreate_def validate_None valid_class_Default policy_defs
      split: option.splits)

text \<open>
  Defaulting keeps every choice of the user: it changes only an unset policy and unset
  allowed policies, never the rest of the object, leaves an accepted object with both set
  unchanged, and applying it again changes nothing.
\<close>

theorem Default_conservative:
  "Default (Default dc) = Default dc \<and>
   Default dc = dc\<lparr>dc_Spec := (dc_Spec dc)
     \<lparr>AllowedDNSPolicies := AllowedDNSPolicies (dc_Spec (Default dc)),
      DNSPolicy := DNSPolicy (dc_Spec (Default dc))\<rparr>\<rparr> \<and>
   (Default dc = dc \<longleftrightarrow>
      DNSPolicy (dc_Spec dc) \<noteq> [] \<and> AllowedDNSPolicies (dc_Spec dc) \<noteq> None)"
  by (cases dc; cases "dc_Spec dc")
    (auto simp: Default_def default_DNSPolicy_def default_AllowedDNSPolicies_def policy_defs)

text \<open>
  An invalid entry of \<open>allowedDNSPolicies\<close> is reported under the path \<open>spec.dnsPolicy\<close>,
  never under the path of the field that holds it.
\<close>

theorem allowed_policy_error_path:
  assumes "p \<in> set (elems (AllowedDNSPolicies (dc_Spec dc)))" and "p \<notin> set ValidDNSPolicies"
  shows "\<exists>errs. validate dc = Some (NewInvalid (dc_GroupKind dc) (dc_Name dc) errs) \<and>
    invalid_allowed_policy dc p \<in> set errs \<and>
    (\<forall>e \<in> set errs. fe_Field e \<noteq> [''spec'', ''allowedDNSPolicies''])"
proof -
  have "invalid_allowed_policy dc p \<in> set (rule_errors dc)"
    using assms by (auto simp: rule_errors_def)
  moreover have "\<forall>e \<in> set (rule_errors dc). fe_Field e \<noteq> [''spec'', ''allowedDNSPolicies'']"
    by (auto simp: rule_errors_def validation_errors)
  ultimately show ?thesis
    by (auto simp: validate_rule_errors)
qed

theorem allowed_policy_error_path_witness:
  "\<exists>errs. validate (empty_DNSClass\<lparr>dc_Spec := empty_DNSClassSpec
       \<lparr>AllowedDNSPolicies := Some [''InvalidDNSPolicy''], DNSPolicy := ''None''\<rparr>\<rparr>)
     = Some (NewInvalid ([], []) [] errs) \<and> errs \<noteq> []"
proof -
  let ?dc = "empty_DNSClass\<lparr>dc_Spec := empty_DNSClassSpec
       \<lparr>AllowedDNSPolicies := Some [''InvalidDNSPolicy''], DNSPolicy := ''None''\<rparr>\<rparr>"
  have "''InvalidDNSPolicy'' \<in> set (elems (AllowedDNSPolicies (dc_Spec ?dc)))"
    "''InvalidDNSPolicy'' \<notin> set ValidDNSPolicies"
    by (simp_all add: ValidDNSPolicies_def policy_defs)
  from allowed_policy_error_path [OF this] show ?thesis
    by (auto simp: empty_DNSClass_def)
qed

end
