(* ===== verification/System.thy ===== *)
theory System
  imports Controller_Properties Pod_Webhook DNSClass_Webhook
begin

text \<open>
  The components together: a cluster that stores DNSClass objects, users who create, change and
  delete them through the two admission webhooks, the reconciler that runs on them, and pods that
  are admitted against them. The API server is described by what the code relies on: a read
  returns the stored object, a status update replaces the status and nothing else, a write by a
  user replaces the specification and keeps the status (the status subresource).
\<close>

section \<open>The cluster\<close>

type_synonym cluster = "DNSClass list"

definition key :: "DNSClass \<Rightarrow> NamespacedName" where
  "key dc = \<lparr>nn_Namespace = dc_Namespace dc, nn_Name = dc_Name dc\<rparr>"

definition find_class :: "NamespacedName \<Rightarrow> cluster \<Rightarrow> DNSClass option" where
  "find_class nn cs = find (\<lambda>dc. key dc = nn) cs"

text \<open>
  What the API server stores for a status update and for an update by a user. The versions of the
  stored objects are left alone here, because nothing in the cluster compares them; the server that
  refuses updates of old versions is that of the theory on racing updates.
\<close>

definition put_status :: "DNSClass \<Rightarrow> cluster \<Rightarrow> cluster" where
  "put_status dc cs = map (\<lambda>d. if key d = key dc then d\<lparr>dc_Status := dc_Status dc\<rparr> else d) cs"

definition put_spec :: "DNSClass \<Rightarrow> cluster \<Rightarrow> cluster" where
  "put_spec dc cs = map (\<lambda>d. if key d = key dc
     then d\<lparr>dc_Spec := dc_Spec dc,
            dc_Generation := (if dc_Spec dc = dc_Spec d then dc_Generation d else dc_Generation d + 1)\<rparr>
     else d) cs"

text \<open>A client of this cluster: reads do not change it, a status update may fail.\<close>

definition cluster_client :: "cluster Reconciler \<Rightarrow> bool" where
  "cluster_client r \<longleftrightarrow>
     (\<forall>nn w. snd (client_Get r nn w) = w \<and>
        (\<forall>dc. fst (client_Get r nn w) = Inr dc \<longrightarrow> find_class nn w = Some dc)) \<and>
     (\<forall>w. snd (client_ListNodes r w) = w) \<and>
     (\<forall>c url w. snd (rest_GetRaw r c url w) = w) \<and>
     (\<forall>w. snd (time_Now r w) = w) \<and>
     (\<forall>dc w. snd (client_StatusUpdate r dc w) = w \<or> snd (client_StatusUpdate r dc w) = put_status dc w)"

text \<open>
  The steps of the cluster, for a restriction \<open>upd\<close> on the updates users make. A run of the
  reconciler is one step, with any client of the cluster and any answers of the kubelet.
\<close>

inductive step :: "(DNSClass \<Rightarrow> DNSClass \<Rightarrow> bool) \<Rightarrow> cluster \<Rightarrow> cluster \<Rightarrow> bool"
  for upd :: "DNSClass \<Rightarrow> DNSClass \<Rightarrow> bool" where
  create: "ValidateCreate (Default obj) = None \<Longrightarrow> find_class (key obj) cs = None \<Longrightarrow>
    step upd cs (cs @ [(Default obj)\<lparr>dc_Status := empty_DNSClassStatus, dc_Generation := 1\<rparr>])"
| update: "find_class (key obj) cs = Some old \<Longrightarrow> ValidateUpdate old (Default obj) = None \<Longrightarrow>
    upd old (Default obj) \<Longrightarrow> step upd cs (put_spec (Default obj) cs)"
| delete: "find_class nn cs = Some old \<Longrightarrow> ValidateDelete old = None \<Longrightarrow>
    step upd cs (filter (\<lambda>d. key d \<noteq> nn) cs)"
| reconcile: "cluster_client r \<Longrightarrow> retry_contract r \<Longrightarrow> Reconcile r nn (start cs) = Ret (err, s') \<Longrightarrow>
    step upd cs (world s')"

inductive_cases step_elims: "step upd cs cs'"

inductive reachable :: "(DNSClass \<Rightarrow> DNSClass \<Rightarrow> bool) \<Rightarrow> cluster \<Rightarrow> bool"
  for upd :: "DNSClass \<Rightarrow> DNSClass \<Rightarrow> bool" where
  init: "reachable upd []"
| step: "reachable upd cs \<Longrightarrow> step upd cs cs' \<Longrightarrow> reachable upd cs'"

section \<open>Lemmas on the cluster\<close>

lemma key_simps [simp]:
  "key (dc\<lparr>dc_Status := st\<rparr>) = key dc" "key (dc\<lparr>dc_Spec := sp\<rparr>) = key dc"
  "key (dc\<lparr>dc_Generation := g\<rparr>) = key dc" "key (Default dc) = key dc"
  by (simp_all add: key_def)

lemma key_put [simp]:
  "map key (put_status dc cs) = map key cs" "map key (put_spec dc cs) = map key cs"
  by (simp_all add: put_status_def put_spec_def)

lemma find_class_SomeD: "find_class nn cs = Some dc \<Longrightarrow> dc \<in> set cs \<and> key dc = nn"
  by (auto simp: find_class_def find_Some_iff)

lemma find_class_None: "find_class nn cs = None \<longleftrightarrow> nn \<notin> key ` set cs"
  by (auto simp: find_class_def find_None_iff)

lemma find_class_distinct:
  "distinct (map key cs) \<Longrightarrow> dc \<in> set cs \<Longrightarrow> find_class (key dc) cs = Some dc"
  by (induction cs) (auto simp: find_class_def)

lemma set_put_status:
  "d \<in> set (put_status dc cs) \<longleftrightarrow>
     (\<exists>d0 \<in> set cs. d = (if key d0 = key dc then d0\<lparr>dc_Status := dc_Status dc\<rparr> else d0))"
  by (auto simp: put_status_def)

lemma find_put_status:
  "find_class (key dc) cs = Some d \<Longrightarrow>
     find_class (key dc) (put_status dc cs) = Some (d\<lparr>dc_Status := dc_Status dc\<rparr>)"
  by (induction cs) (auto simp: find_class_def put_status_def split: if_splits)

text \<open>
  A run of the reconciler keeps what every write of a final status keeps. The write is described
  by the class it read at the start, its own outcome, and the stored object it replaces.
\<close>

definition final_write :: "DNSClass \<Rightarrow> go_error option \<Rightarrow> DNSClass \<Rightarrow> bool" where
  "final_write dc err w \<longleftrightarrow>
     State (dc_Status w) = (if err = None then StateReady else StateError) \<and>
     (err = None \<and> DNSPolicy (dc_Spec dc) = DNSNone \<longrightarrow> st_DiscoveredFields (dc_Status w) \<noteq> None) \<and>
     key w = key dc"

text \<open>What a run sends, for a client that returns the class of the name it is asked for.\<close>

lemma Reconcile_writes:
  assumes get_key: "\<And>nn w dc w'. client_Get r nn w = (Inr dc, w') \<Longrightarrow> key dc = nn"
    and "retry_contract r" and "Reconcile r nn s = Ret (err, s')"
  shows "adds r (\<lambda>a. is_read_or_event a \<or> (\<exists>x dc0 s0. a = DidStatusUpdate x \<and>
    call (DidGet nn) (client_Get r nn) s = (Inr dc0, s0) \<and> final_write dc0 err x)) s s'"
  using Reconcile_adds [OF assms(2,3)]
proof (rule adds_mono)
  fix a
  assume "is_read_or_event a \<or> (\<exists>x dc0 s0 dc msg e. a = DidStatusUpdate x \<and> err = map_option DiscoveryError e \<and>
       call (DidGet nn) (client_Get r nn) s = (Inr dc0, s0) \<and> body_result dc0 dc msg e \<and>
       written_status r e msg dc (dc_Status x) \<and> fresh_write r dc0 x)"
  then show "is_read_or_event a \<or> (\<exists>x dc0 s0. a = DidStatusUpdate x \<and>
    call (DidGet nn) (client_Get r nn) s = (Inr dc0, s0) \<and> final_write dc0 err x)"
  proof (elim disjE exE conjE)
    fix x dc0 s0 dc msg e
    assume a: "a = DidStatusUpdate x" and e: "err = map_option DiscoveryError e"
      and get: "call (DidGet nn) (client_Get r nn) s = (Inr dc0, s0)"
      and b: "body_result dc0 dc msg e" and st: "written_status r e msg dc (dc_Status x)"
      and f: "fresh_write r dc0 x"
    from f obtain w0 w1 read where g: "client_Get r (key dc0) w0 = (Inr read, w1)"
      and x: "x = read\<lparr>dc_Status := dc_Status x\<rparr>" by (auto simp: fresh_write_def key_def)
    from get_key [OF g] have "key x = key dc0" by (subst x) simp
    with b st e have "final_write dc0 err x"
      by (cases e) (auto simp: final_write_def body_result_def written_status_def)
    with a get show ?thesis by blast
  qed simp
qed

lemma Reconcile_cluster:
  assumes c: "cluster_client r" and "retry_contract r"
    and run: "Reconcile r nn (start cs) = Ret (err, s')" and J: "J cs"
    and put: "\<And>dc w cs'. find_class nn cs = Some dc \<Longrightarrow> final_write dc err w \<Longrightarrow> J cs' \<Longrightarrow>
      J (put_status w cs')"
  shows "J (world s')"
proof -
  have found: "find_class nn w = Some dc" if "client_Get r nn w = (Inr dc, w')" for nn w dc w'
    using c that by (metis cluster_client_def fst_conv)
  have key: "key dc = nn" if "client_Get r nn w = (Inr dc, w')" for nn w dc w'
    using found [OF that] find_class_SomeD by blast
  show ?thesis
  proof (rule adds_world [OF Reconcile_writes [OF key assms(2) run], where J = J])
    show "J (world (start cs))" using J by (simp add: start_def)
    show "J (snd (time_Now r w))" if "J w" for w
      using that c by (simp add: cluster_client_def)
    fix a w
    assume P: "is_read_or_event a \<or> (\<exists>x dc0 s0. a = DidStatusUpdate x \<and>
        call (DidGet nn) (client_Get r nn) (start cs) = (Inr dc0, s0) \<and> final_write dc0 err x)"
      and w: "J w"
    show "J (effect r a w)"
    proof (cases a)
      case (DidStatusUpdate x)
      with P obtain dc0 s0 where get: "call (DidGet nn) (client_Get r nn) (start cs) = (Inr dc0, s0)"
        and final: "final_write dc0 err x" by auto
      have "find_class nn cs = Some dc0" using get found by (auto simp: call_def start_def split: prod.splits)
      from put [OF this final] w show ?thesis
        using c DidStatusUpdate by (simp add: cluster_client_def) metis
    qed (use w c in \<open>simp_all add: cluster_client_def\<close>)
  qed
qed

section \<open>What holds of every stored class\<close>

definition known_states :: "string set" where
  "known_states = {[], StateReady, StateError}"

definition sound_cluster :: "cluster \<Rightarrow> bool" where
  "sound_cluster cs \<longleftrightarrow> distinct (map key cs) \<and>
     (\<forall>dc \<in> set cs. valid_class dc \<and> DNSPolicy (dc_Spec dc) \<noteq> [] \<and>
        AllowedDNSPolicies (dc_Spec dc) \<noteq> None \<and> State (dc_Status dc) \<in> known_states)"

lemma valid_class_spec: "dc_Spec dc = dc_Spec dc' \<Longrightarrow> valid_class dc = valid_class dc'"
  by (simp add: valid_class_def class_searches_def)

lemma valid_class_status [simp]: "valid_class (dc\<lparr>dc_Status := st\<rparr>) = valid_class dc"
  by (rule valid_class_spec) simp

lemma sound_put_status:
  assumes "sound_cluster cs" and "State (dc_Status w) \<in> known_states"
  shows "sound_cluster (put_status w cs)"
  using assms unfolding sound_cluster_def
  by (auto simp: set_put_status split: if_splits)

lemma Default_accepted:
  assumes "validate (Default obj) = None"
  shows "valid_class (Default obj)" "DNSPolicy (dc_Spec (Default obj)) \<noteq> []"
    "AllowedDNSPolicies (dc_Spec (Default obj)) \<noteq> None"
  using assms by (auto simp: validate_None policy_defs split: option.splits)

lemma step_sound:
  assumes "step upd cs cs'" and "sound_cluster cs"
  shows "sound_cluster cs'"
  using assms(1)
proof cases
  case (create obj)
  let ?new = "(Default obj)\<lparr>dc_Status := empty_DNSClassStatus, dc_Generation := 1\<rparr>"
  from create have v: "validate (Default obj) = None" by (simp add: ValidateCreate_def)
  have "valid_class ?new" using Default_accepted(1) [OF v] by (rule valid_class_spec [THEN iffD1, rotated]) simp
  with Default_accepted [OF v] assms(2) create show ?thesis
    by (auto simp: sound_cluster_def find_class_None known_states_def empty_DNSClassStatus_def)
next
  case (update obj old)
  from update have v: "validate (Default obj) = None" by (simp add: ValidateUpdate_def)
  have val: "valid_class (d\<lparr>dc_Spec := dc_Spec (Default obj), dc_Generation := g\<rparr>)" for d g
    using Default_accepted(1) [OF v] by (rule valid_class_spec [THEN iffD1, rotated]) simp
  show ?thesis
    unfolding update(1) using assms(2) val Default_accepted(2,3) [OF v]
    by (auto simp: sound_cluster_def put_spec_def comp_def if_distrib [of key] cong: if_cong)
next
  case (delete nn old)
  with assms(2) show ?thesis by (auto simp: sound_cluster_def distinct_map_filter)
next
  case (reconcile r nn err s')
  show ?thesis
    unfolding reconcile(1)
    by (rule Reconcile_cluster [OF reconcile(2-4), where J = sound_cluster, OF assms(2)])
      (auto intro!: sound_put_status simp: final_write_def known_states_def split: if_splits)
qed

lemma reachable_sound: "reachable upd cs \<Longrightarrow> sound_cluster cs"
  by (induction rule: reachable.induct) (auto simp: sound_cluster_def [of "[]"] intro: step_sound)

text \<open>
  C9. Every class stored in a cluster whose users go through the webhooks is valid, has a policy
  and allowed policies, is alone under its name, and has a state that is unset, \<open>ready\<close> or
  \<open>error\<close>: the state \<open>initializing\<close> is never stored.
\<close>

theorem stored_classes_valid:
  assumes "reachable upd cs"
  shows "distinct (map key cs) \<and> (\<forall>dc \<in> set cs. valid_class dc \<and> DNSPolicy (dc_Spec dc) \<noteq> [] \<and>
    AllowedDNSPolicies (dc_Spec dc) \<noteq> None \<and>
    State (dc_Status dc) \<in> {[], StateReady, StateError} \<and> State (dc_Status dc) \<noteq> StateInit)"
  using reachable_sound [OF assms]
  by (auto simp: sound_cluster_def known_states_def StateInit_def StateReady_def StateError_def)

section \<open>A cluster to evaluate on\<close>

definition cluster_reconciler :: "(string + (string \<rightharpoonup> json)) \<Rightarrow> cluster Reconciler" where
  "cluster_reconciler config =
     \<lparr>client_Get = (\<lambda>nn w. (case find_class nn w of
         None \<Rightarrow> Inl (NotFound ''not found'') | Some dc \<Rightarrow> Inr dc, w)),
      client_StatusUpdate = (\<lambda>dc w. (None, put_status dc w)),
      client_ListNodes = (\<lambda>w. (Inr [''node''], w)),
      Config = \<lparr>GroupVersion = None, NegotiatedSerializer = None, rest_Other = []\<rparr>,
      RESTClientFor = (\<lambda>_. None),
      rest_GetRaw = (\<lambda>_ _ w. (Inr [], w)),
      json_Unmarshal = (\<lambda>_. config),
      time_Now = (\<lambda>w. (0, w)),
      SetStatusCondition = store_condition,
      RetryOnConflict = attempts 4\<rparr>"

lemma cluster_reconciler_contracts:
  "cluster_client (cluster_reconciler config)" "retry_contract (cluster_reconciler config)"
  by (auto simp: cluster_client_def retry_contract_def cluster_reconciler_def split: option.splits)

definition user_class :: "DNSPolicy_t \<Rightarrow> DNSClass" where
  "user_class p = empty_DNSClass\<lparr>dc_Name := ''dns'', dc_Spec := empty_DNSClassSpec\<lparr>DNSPolicy := p\<rparr>\<rparr>"

text \<open>The class as the API server stores it after its creation.\<close>

definition stored_class :: "DNSPolicy_t \<Rightarrow> DNSClass" where
  "stored_class p = (Default (user_class p))\<lparr>dc_Status := empty_DNSClassStatus, dc_Generation := 1\<rparr>"

lemma user_class_valid:
  "p \<in> set ValidDNSPolicies \<Longrightarrow> validate (Default (user_class p)) = None"
  by (auto simp: validate_None valid_class_Default valid_request_def user_class_def empty_DNSClass_def
      empty_DNSClassSpec_def class_searches_def)

lemma reachable_created:
  assumes "p \<in> set ValidDNSPolicies"
  shows "reachable upd [stored_class p]"
proof -
  have "step upd [] ([] @ [(Default (user_class p))\<lparr>dc_Status := empty_DNSClassStatus, dc_Generation := 1\<rparr>])"
    by (rule step.create) (simp_all add: ValidateCreate_def user_class_valid [OF assms] find_class_def)
  with init have "reachable upd ([] @ [(Default (user_class p))\<lparr>dc_Status := empty_DNSClassStatus, dc_Generation := 1\<rparr>])"
    by (rule reachable.step)
  then show ?thesis by (simp add: stored_class_def)
qed

theorem stored_classes_valid_witness:
  "reachable (\<lambda>_ _. True) [stored_class DNSNone] \<and> valid_class (stored_class DNSNone)"
proof -
  have r: "reachable (\<lambda>_ _. True) [stored_class DNSNone]"
    by (rule reachable_created) (simp add: ValidDNSPolicies_def)
  from stored_classes_valid [OF r] r show ?thesis by simp
qed

section \<open>Panics of the pod webhook\<close>

definition discovered_if_ready :: "DNSClass \<Rightarrow> bool" where
  "discovered_if_ready dc \<longleftrightarrow>
     (State (dc_Status dc) = StateReady \<and> DNSPolicy (dc_Spec dc) = DNSNone \<longrightarrow>
      st_DiscoveredFields (dc_Status dc) \<noteq> None)"

definition same_policy :: "DNSClass \<Rightarrow> DNSClass \<Rightarrow> bool" where
  "same_policy old new \<longleftrightarrow> DNSPolicy (dc_Spec new) = DNSPolicy (dc_Spec old)"

lemma discovered_put_status:
  assumes "\<forall>d \<in> set cs'. discovered_if_ready d"
    and "\<forall>d \<in> set cs'. key d = key dc \<longrightarrow> dc_Spec d = dc_Spec dc" and "final_write dc err w"
  shows "\<forall>d \<in> set (put_status w cs'). discovered_if_ready d"
proof
  fix d
  assume "d \<in> set (put_status w cs')"
  then obtain d0 where d0: "d0 \<in> set cs'"
    and d: "d = (if key d0 = key w then d0\<lparr>dc_Status := dc_Status w\<rparr> else d0)"
    by (auto simp: set_put_status)
  show "discovered_if_ready d"
  proof (cases "key d0 = key w")
    case True
    with assms(2,3) d0 have "dc_Spec d0 = dc_Spec dc" by (simp add: final_write_def)
    with assms(3) d True show ?thesis
      by (auto simp: discovered_if_ready_def final_write_def StateReady_def StateError_def split: if_splits)
  qed (use d d0 assms(1) in simp)
qed

lemma put_status_spec:
  "d \<in> set (put_status w cs) \<Longrightarrow> \<exists>d0 \<in> set cs. key d = key d0 \<and> dc_Spec d = dc_Spec d0"
  unfolding set_put_status by (elim bexE, rule bexI) (auto split: if_splits)

lemma run_discovered:
  assumes "cluster_client r" and "retry_contract r" and "Reconcile r nn (start cs) = Ret (err, s')"
    and "sound_cluster cs" and "\<forall>d \<in> set cs. discovered_if_ready d"
  shows "\<forall>d \<in> set (world s'). discovered_if_ready d"
proof -
  let ?J = "\<lambda>cs'. (\<forall>d \<in> set cs'. discovered_if_ready d) \<and>
    (\<forall>dc. find_class nn cs = Some dc \<longrightarrow> (\<forall>d \<in> set cs'. key d = key dc \<longrightarrow> dc_Spec d = dc_Spec dc))"
  have "?J (world s')"
  proof (rule Reconcile_cluster [OF assms(1-3), where J = ?J])
    show "?J cs"
    proof (intro conjI allI impI ballI assms(5) [rule_format])
      fix dc d
      assume "find_class nn cs = Some dc" "d \<in> set cs" "key d = key dc"
      with find_class_SomeD have "find_class (key d) cs = Some dc" by simp
      moreover have "find_class (key d) cs = Some d"
        using assms(4) \<open>d \<in> set cs\<close> by (intro find_class_distinct) (simp_all add: sound_cluster_def)
      ultimately show "dc_Spec d = dc_Spec dc" by simp
    qed
    fix dc w cs'
    assume found: "find_class nn cs = Some dc" and w: "final_write dc err w" and J: "?J cs'"
    have "\<forall>d \<in> set (put_status w cs'). discovered_if_ready d"
      by (rule discovered_put_status [OF _ _ w]) (use J found in auto)
    moreover have "dc_Spec d = dc_Spec dc'" if "find_class nn cs = Some dc'"
      "d \<in> set (put_status w cs')" "key d = key dc'" for dc' d
      using put_status_spec [OF that(2)] J that(1,3) by metis
    ultimately show "?J (put_status w cs')" by blast
  qed
  then show ?thesis ..
qed

lemma step_discovered:
  assumes "step same_policy cs cs'" and "sound_cluster cs" and "\<forall>d \<in> set cs. discovered_if_ready d"
  shows "\<forall>d \<in> set cs'. discovered_if_ready d"
  using assms(1)
proof cases
  case (create obj)
  with assms(3) show ?thesis
    by (auto simp: discovered_if_ready_def empty_DNSClassStatus_def StateReady_def)
next
  case (update obj old)
  show ?thesis
  proof
    fix d
    assume "d \<in> set cs'"
    then obtain d0 where d0: "d0 \<in> set cs" and d: "d = (if key d0 = key obj
        then d0\<lparr>dc_Spec := dc_Spec (Default obj), dc_Generation :=
          (if dc_Spec (Default obj) = dc_Spec d0 then dc_Generation d0 else dc_Generation d0 + 1)\<rparr>
        else d0)"
      by (auto simp: update(1) put_spec_def)
    from find_class_distinct [of cs d0] d0 assms(2) update(2) have "key d0 = key obj \<Longrightarrow> d0 = old"
      by (auto simp: sound_cluster_def)
    with d d0 assms(3) update(4) show "discovered_if_ready d"
      by (auto simp: discovered_if_ready_def same_policy_def)
  qed
next
  case (delete nn old)
  with assms(3) show ?thesis by auto
next
  case (reconcile r nn err s')
  show ?thesis unfolding reconcile(1) by (rule run_discovered [OF reconcile(2-4) assms(2,3)])
qed

lemma reachable_discovered:
  "reachable same_policy cs \<Longrightarrow> \<forall>d \<in> set cs. discovered_if_ready d"
proof (induction rule: reachable.induct)
  case init
  show ?case by simp
next
  case (step cs cs')
  then show ?case using step_discovered reachable_sound by blast
qed

lemma Handle_no_panic:
  assumes "List_classes p = Inr items" and "\<And>dc. dc \<in> set items \<Longrightarrow> discovered_if_ready dc"
  shows "Handle p req \<noteq> Panic"
proof
  assume "Handle p req = Panic"
  then obtain pod dc where "getDNSClass p pod = (dc, None)" and bad: "State (dc_Status dc) = StateReady"
    "DNSPolicy (dc_Spec dc) = DNSNone" "st_DiscoveredFields (dc_Status dc) = None"
    unfolding Handle_def
    by (auto simp: obind_Panic_iff configure_panic_iff split: option.splits prod.splits if_splits)
  with getDNSClass_found [OF assms(1), of pod dc] have "dc \<in> set items" by auto
  with assms(2) have "discovered_if_ready dc" by blast
  with bad show False by (simp add: discovered_if_ready_def)
qed

text \<open>
  C1. As long as no user changes the policy of a stored class, the pod webhook never panics: in
  every reachable cluster a ready class with the policy \<open>None\<close> holds discovered fields.
\<close>

theorem no_panic_if_policies_fixed:
  assumes "reachable same_policy cs" and "List_classes p = Inr cs"
  shows "Handle p req \<noteq> Panic"
  by (rule Handle_no_panic [OF assms(2)]) (use reachable_discovered [OF assms(1)] in blast)

theorem no_panic_if_policies_fixed_witness:
  "reachable same_policy [stored_class DNSNone] \<and>
   Handle (sample_mutator [stored_class DNSNone]) \<lparr>Object_Raw = []\<rparr> \<noteq> Panic"
proof -
  have r: "reachable same_policy [stored_class DNSNone]"
    by (rule reachable_created) (simp add: ValidDNSPolicies_def)
  have l: "List_classes (sample_mutator [stored_class DNSNone]) = Inr [stored_class DNSNone]"
    by (simp add: sample_mutator_def)
  from no_panic_if_policies_fixed [OF r l] r show ?thesis by blast
qed

text \<open>The class that was reconciled under the policy \<open>ClusterFirst\<close>.\<close>

definition ready_class :: DNSClass where
  "ready_class = (stored_class DNSClusterFirst)\<lparr>dc_Status :=
     \<lparr>Conditions = [mk_condition StateReady ConditionTrue ''Ready'' ''ReconcileCompleted'' 0],
      State = StateReady, st_DiscoveredFields = None\<rparr>\<rparr>"

lemmas stored_class_eval =
  stored_class_def user_class_def Default_def default_AllowedDNSPolicies_def default_DNSPolicy_def
  key_def find_class_def put_status_def put_spec_def

lemma reconciled_ready:
  "\<exists>s'. Reconcile (cluster_reconciler kubelet_sample) (key (stored_class DNSClusterFirst))
       (start [stored_class DNSClusterFirst]) = Ret (None, s') \<and> world s' = [ready_class]"
  by (simp add: cluster_reconciler_def ready_class_def stored_class_eval sample_eval)

lemma policy_changed:
  "put_spec (Default (user_class DNSNone)) [ready_class] =
     [ready_class\<lparr>dc_Spec := dc_Spec (Default (user_class DNSNone)), dc_Generation := 2\<rparr>]"
  by (simp add: ready_class_def stored_class_eval sample_eval)

text \<open>
  C31. A policy change can make the pod webhook panic: a class is created with the policy
  \<open>ClusterFirst\<close>, reconciled to \<open>ready\<close>, and updated to the policy \<open>None\<close>; a pod that is
  admitted before the next reconciliation dereferences the missing discovered fields.
\<close>

theorem policy_change_panics:
  "\<exists>cs. reachable (\<lambda>_ _. True) cs \<and> (\<forall>req. Handle (sample_mutator cs) req = Panic)"
proof -
  let ?cs = "put_spec (Default (user_class DNSNone)) [ready_class]"
  obtain s' where "Reconcile (cluster_reconciler kubelet_sample) (key (stored_class DNSClusterFirst))
       (start [stored_class DNSClusterFirst]) = Ret (None, s')" and w: "world s' = [ready_class]"
    using reconciled_ready by blast
  then have "step (\<lambda>_ _. True) [stored_class DNSClusterFirst] [ready_class]"
    using step.reconcile [OF cluster_reconciler_contracts] by (metis w)
  moreover have "reachable (\<lambda>_ _. True) [stored_class DNSClusterFirst]"
    by (rule reachable_created) (simp add: ValidDNSPolicies_def)
  ultimately have "reachable (\<lambda>_ _. True) [ready_class]" by (blast intro: reachable.step)
  moreover have "step (\<lambda>_ _. True) [ready_class] ?cs"
  proof (rule step.update)
    show "find_class (key (user_class DNSNone)) [ready_class] = Some ready_class"
      by (simp add: ready_class_def stored_class_eval)
    show "ValidateUpdate ready_class (Default (user_class DNSNone)) = None"
      by (simp add: ValidateUpdate_def user_class_valid ValidDNSPolicies_def)
  qed simp
  ultimately have "reachable (\<lambda>_ _. True) ?cs" by (rule reachable.step)
  moreover have "Handle (sample_mutator ?cs) req = Panic" for req
    unfolding policy_changed
    by (simp add: Handle_def sample_mutator_def getDNSClass_def sample_pod_def ready_class_def
        stored_class_eval configureDNSForPod_def empty_DNSClass_def empty_DNSClassSpec_def
        DefaultDNSPolicies_def policy_defs)
  ultimately show ?thesis by blast
qed

section \<open>From a stored class to a configured pod\<close>

text \<open>
  C33. Validation leaves one way to fail: for a valid class with the policy \<open>None\<close>, reconciling
  returns an error exactly when a search uses the cluster domain and the domain was not found.
  The nameservers are no template key a valid class can use, so they are never required.
\<close>

theorem valid_class_fails_iff:
  assumes "valid_class dc" and "DNSPolicy (dc_Spec dc) = DNSNone"
    and "call (DidGet req) (client_Get r req) s = (Inr dc, s0)"
    and "discovery_reads r (started s0) res1 res2"
    and "Reconcile r req s = Ret (err, s')"
  shows "err \<noteq> None \<longleftrightarrow> (\<exists>t \<in> set (class_searches dc). ''clusterDomain'' \<in> set (scan_keys t)) \<and> isl res1"
proof -
  have keys: "k \<in> set (ExtractTemplateKeysRegex dc) \<longleftrightarrow> (\<exists>t \<in> set (class_searches dc). k \<in> set (scan_keys t))" for k
    using tk.some_key_iff [of dc "\<lambda>x. x = k"] by auto
  have "''nameservers'' \<notin> set ValidTemplateKeys" by (simp add: ValidTemplateKeys_def)
  with assms(1) have "''nameservers'' \<notin> set (ExtractTemplateKeysRegex dc)"
    by (auto simp: keys valid_class_def)
  with assms(3,2,4,5) show ?thesis
    by (elim Reconcile_none) (auto simp: some_required_missing_def keys)
qed

lemma templated_class_valid: "valid_class (Default templated_class)"
proof -
  have "validate (Default templated_class) = None" by code_simp
  then show ?thesis by (simp add: validate_None)
qed

theorem valid_class_fails_iff_witness:
  "\<exists>e s'. valid_class (Default templated_class) \<and>
     Reconcile (sample_reconciler (Inl ''unexpected end'') None) sample_req (start (Some (Default templated_class))) =
     Ret (Some e, s')"
proof -
  let ?r = "sample_reconciler (Inl ''unexpected end'') None"
  have none: "DNSPolicy (dc_Spec (Default templated_class)) = DNSNone"
    by (simp add: templated_class_facts)
  obtain err s' where run: "Reconcile ?r sample_req (start (Some (Default templated_class))) = Ret (err, s')"
    using Reconcile_total by blast
  have "class_searches (Default templated_class) = [''svc.{{ .clusterDomain }}'']"
    "scan_keys ''svc.{{ .clusterDomain }}'' = [''clusterDomain'']" by code_simp+
  with valid_class_fails_iff [OF templated_class_valid none sample_get sample_reads_fail run]
  have "err \<noteq> None" by simp
  with run templated_class_valid show ?thesis by auto
qed

text \<open>A client whose reads find stored objects and whose status updates succeed.\<close>

definition reliable_client :: "cluster Reconciler \<Rightarrow> bool" where
  "reliable_client r \<longleftrightarrow> cluster_client r \<and>
     (\<forall>nn w dc. find_class nn w = Some dc \<longrightarrow> client_Get r nn w = (Inr dc, w)) \<and>
     (\<forall>dc w. client_StatusUpdate r dc w = (None, put_status dc w))"

lemma cluster_reconciler_reliable: "reliable_client (cluster_reconciler config)"
  using cluster_reconciler_contracts by (simp add: reliable_client_def cluster_reconciler_def)

lemma put_status_cong:
  "key d = key d' \<Longrightarrow> dc_Status d = dc_Status d' \<Longrightarrow> put_status d cs = put_status d' cs"
  by (simp add: put_status_def)

lemma attempts_ok: "f s = (None, s') \<Longrightarrow> attempts n f s = (None, s')"
  by (cases n) auto

lemma writeStatus_reliable:
  assumes "reliable_client r" and "retry_contract r" and "find_class (key dc) (world s) = Some d"
    and "writeStatus r dc s = (x, s')"
  shows "world s' = put_status dc (world s)"
proof -
  let ?w = "d\<lparr>dc_Status := dc_Status dc\<rparr>"
  from find_class_SomeD [OF assms(3)] have "put_status ?w (world s) = put_status dc (world s)"
    by (intro put_status_cong) simp_all
  then obtain t where t: "write_attempt r dc s = (None, t)" "world t = put_status dc (world s)"
    using assms(1,3) by (simp add: write_attempt_def reliable_client_def call_def key_def [symmetric])
  from assms(2) obtain n where "RetryOnConflict r (write_attempt r dc) s = attempts n (write_attempt r dc) s"
    unfolding retry_contract_def by blast
  with attempts_ok [where f = "write_attempt r dc", OF t(1)] assms(4) t(2) show ?thesis by (simp add: writeStatus_def)
qed

lemma adds_world_same:
  assumes "cluster_client r" and "adds r P s t" and "\<And>a. P a \<Longrightarrow> is_read_or_event a"
  shows "world t = world s"
proof (rule adds_world [OF assms(2), where J = "\<lambda>w. w = world s"])
  fix a w
  assume "P a" "w = world s"
  with assms(3) [of a] assms(1) show "effect r a w = world s"
    by (cases a) (auto simp: cluster_client_def)
qed (use assms(1) in \<open>simp_all add: cluster_client_def\<close>)

text \<open>
  C5. Reconciling makes a class ready: with a client whose status updates succeed and a kubelet
  that reports both fields, a run on a stored class with the policy \<open>None\<close> returns no error and
  leaves the class \<open>ready\<close> under its unchanged specification, with exactly the reported domain
  and nameservers, and no other class changed.
\<close>

theorem Reconcile_makes_ready:
  assumes r: "reliable_client r" and retry: "retry_contract r"
    and found: "find_class req cs = Some dc" and none: "DNSPolicy (dc_Spec dc) = DNSNone"
    and reads: "discovery_reads r (started \<lparr>world = cs, trace = [DidGet req]\<rparr>)
      (Inr (AString domain)) (Inr (AStrings ns))"
  shows "\<exists>s' dc'. Reconcile r req (start cs) = Ret (None, s') \<and>
    find_class req (world s') = Some dc' \<and> dc_Spec dc' = dc_Spec dc \<and>
    State (dc_Status dc') = StateReady \<and>
    st_DiscoveredFields (dc_Status dc') =
      Some \<lparr>df_Nameservers = Some ns, df_ClusterDomain = domain\<rparr> \<and>
    filter (\<lambda>d. key d \<noteq> req) (world s') = filter (\<lambda>d. key d \<noteq> req) cs"
proof -
  obtain err s' where run: "Reconcile r req (start cs) = Ret (err, s')"
    using Reconcile_total by blast
  have get: "call (DidGet req) (client_Get r req) (start cs) = (Inr dc, \<lparr>world = cs, trace = [DidGet req]\<rparr>)"
    using r found by (simp add: call_def start_def reliable_client_def)
  have c: "cluster_client r" using r by (simp add: reliable_client_def)
  from get none reads run obtain s1 x where err: "err = None"
    and a: "adds r is_read_or_event (start cs) s1"
    and u: "updateStatus r None ''Ready'' (ready_object (init_state dc) (Inr (AString domain))
      (Inr (AStrings ns))) s1 = (x, s')"
    by (elim Reconcile_none) (auto simp: some_required_missing_def)
  let ?rd = "ready_object (init_state dc) (Inr (AString domain)) (Inr (AStrings ns))"
  from u obtain w s2 where ws: "writeStatus r w s2 = (x, s')" and a2: "adds r (\<lambda>_. False) s1 s2"
    and st: "written_status r None ''Ready'' ?rd (dc_Status w)" and same: "same_object ?rd w"
    by (rule updateStatus_cases)
  have "world s2 = cs"
    using adds_world_same [OF c a] adds_world_same [OF c a2] by (simp add: start_def)
  moreover have k: "key w = req"
    using same find_class_SomeD [OF found]
    by (auto simp: ready_object_def init_state_def same_object_def key_def set_state_def
        set_discovered_def split: if_splits)
  ultimately have world: "world s' = put_status w cs"
    using writeStatus_reliable [OF r retry _ ws] found by simp
  have "State (dc_Status w) = StateReady" "st_DiscoveredFields (dc_Status w) =
      Some \<lparr>df_Nameservers = Some ns, df_ClusterDomain = domain\<rparr>"
    using st by (auto simp: written_status_def ready_object_def merged_fields_def)
  moreover have "filter (\<lambda>d. key d \<noteq> req) (put_status w cs) = filter (\<lambda>d. key d \<noteq> req) cs"
    by (induction cs) (auto simp: put_status_def k)
  ultimately show ?thesis
    using run err world found find_put_status [of w cs dc] k by auto
qed

theorem Reconcile_makes_ready_witness:
  "\<exists>s' dc'. Reconcile (cluster_reconciler kubelet_sample) (key (stored_class DNSNone))
       (start [stored_class DNSNone]) = Ret (None, s') \<and>
     find_class (key (stored_class DNSNone)) (world s') = Some dc' \<and> State (dc_Status dc') = StateReady"
proof -
  have f: "find_class (key (stored_class DNSNone)) [stored_class DNSNone] = Some (stored_class DNSNone)"
    by (simp add: find_class_def)
  have n: "DNSPolicy (dc_Spec (stored_class DNSNone)) = DNSNone"
    by (simp add: stored_class_eval)
  have d: "discovery_reads (cluster_reconciler kubelet_sample) (started \<lparr>world = w, trace = t\<rparr>)
      (Inr (AString ''cluster.local'')) (Inr (AStrings [''10.96.0.10'']))" for w t
    by (simp add: discovery_reads_def started_def cluster_reconciler_def sample_eval)
  from Reconcile_makes_ready [OF cluster_reconciler_reliable cluster_reconciler_contracts(2) f n d]
  show ?thesis by blast
qed

text \<open>
  C2. What a ready class does to its pods: let a valid class with the policy \<open>None\<close> hold a
  discovered domain, and nameservers from discovery or its own, and let it be chosen for a pod
  with a namespace. Every search that is a field template renders, since the keys validation
  admits always have a value. When all searches render and the pod can be encoded, it is replaced
  by one that has the policy \<open>None\<close> and the class's configuration with every search rendered. When
  one does not, which validation does not exclude, the pod is admitted unchanged, with the
  message that the configuration failed.
\<close>

theorem ready_class_configures_pods:
  assumes "valid_class dc" and "DNSPolicy (dc_Spec dc) = DNSNone"
    and "State (dc_Status dc) = StateReady" and "st_DiscoveredFields (dc_Status dc) = Some df"
    and "df_ClusterDomain df \<noteq> []" and "Nameservers (class_config dc) \<noteq> None \<or> df_Nameservers df \<noteq> None"
    and "Decode p req = Some pod" and "pod_Namespace pod \<noteq> []" and "getDNSClass p pod = (dc, None)"
    and "text_template p = run_template other" and marshal: "\<forall>x. json_Marshal p x \<noteq> None"
  shows "(\<forall>s \<in> set (class_searches dc). simple_template s \<longrightarrow>
      rendered other (pod_params pod df) s = Inr (subst_keys (pod_params pod df) s)) \<and>
    (if \<forall>s \<in> set (class_searches dc). \<exists>t. rendered other (pod_params pod df) s = Inr t
     then \<exists>pod' out. Handle p req = Ret (PatchResponseFromRaw (Object_Raw req) out) \<and>
       json_Marshal p pod' = Some out \<and> pod_DNSPolicy pod' = DNSNone \<and>
       pod_DNSConfig pod' = Some (applied_config dc df
         (map (\<lambda>s. projr (rendered other (pod_params pod df) s)) (class_searches dc)))
     else Handle p req = Ret (Allowed (dc_Name dc @ '' '' @ ErrDNSConfig)))"
proof (intro conjI)
  have "dom (pod_params pod df) = set ValidTemplateKeys"
    using assms(5,8) by (auto simp: dom_pod_params ValidTemplateKeys_def)
  with assms(1) show "\<forall>s \<in> set (class_searches dc). simple_template s \<longrightarrow>
      rendered other (pod_params pod df) s = Inr (subst_keys (pod_params pod df) s)"
    by (auto simp: rendered_def valid_class_def)
  let ?r = "rendered other (pod_params pod df)"
  let ?bad = "find (\<lambda>s. isl (?r s)) (class_searches dc)"
  have c: "configureDNSForPod (run_template other) pod dc =
    (case ?bad of
       Some s \<Rightarrow> Ret (pod, Some (search_error s (projl (?r s))))
     | None \<Rightarrow> Ret (finish_pod (pod\<lparr>pod_DNSConfig :=
         Some (applied_config dc df (map (\<lambda>s. projr (?r s)) (class_searches dc)))\<rparr>) dc))"
    using assms(6) unfolding configure_none_policy [OF assms(2,4)] render_searches_first_error run_template_rendered
    by (auto simp: pod_params_def split: option.split)
  have h: "Handle p req = obind (configureDNSForPod (run_template other) pod dc) (respond p req dc)"
    using assms(3,7,9,10) by (simp add: Handle_found)
  show "if \<forall>s \<in> set (class_searches dc). \<exists>t. ?r s = Inr t
     then \<exists>pod' out. Handle p req = Ret (PatchResponseFromRaw (Object_Raw req) out) \<and>
       json_Marshal p pod' = Some out \<and> pod_DNSPolicy pod' = DNSNone \<and>
       pod_DNSConfig pod' = Some (applied_config dc df (map (\<lambda>s. projr (?r s)) (class_searches dc)))
     else Handle p req = Ret (Allowed (dc_Name dc @ '' '' @ ErrDNSConfig))"
  proof (cases ?bad)
    case None
    let ?pod = "fst (finish_pod (pod\<lparr>pod_DNSConfig :=
      Some (applied_config dc df (map (\<lambda>s. projr (?r s)) (class_searches dc)))\<rparr>) dc)"
    obtain out where out: "json_Marshal p ?pod = Some out" using marshal by blast
    then have "Handle p req = Ret (PatchResponseFromRaw (Object_Raw req) out)"
      using h c None by (simp add: respond_def)
    moreover have "\<forall>s \<in> set (class_searches dc). \<exists>t. ?r s = Inr t"
      using None by (auto simp: find_None_iff isl_def) (metis sum.exhaust)
    ultimately show ?thesis using out assms(2) by (simp; intro exI [of _ ?pod] exI [of _ out]) simp
  next
    case (Some s)
    then have "s \<in> set (class_searches dc) \<and> isl (?r s)" by (auto simp: find_Some_iff)
    then have "\<not> (\<forall>s \<in> set (class_searches dc). \<exists>t. ?r s = Inr t)" by force
    then show ?thesis using h c Some by (simp add: respond_def)
  qed
qed

lemma sample_class_simple: "\<forall>s \<in> set (class_searches sample_class). simple_template s"
  by code_simp

lemma sample_class_valid: "valid_class sample_class"
proof -
  have "validate sample_class = None" by code_simp
  then show ?thesis by (simp add: validate_None)
qed

theorem ready_class_configures_pods_witness:
  "\<exists>pod' out. Handle (sample_mutator [sample_class]) \<lparr>Object_Raw = []\<rparr> =
     Ret (PatchResponseFromRaw [] out) \<and> json_Marshal (sample_mutator [sample_class]) pod' = Some out \<and>
     pod_DNSPolicy pod' = DNSNone"
proof -
  let ?p = "sample_mutator [sample_class]"
  let ?df = "\<lparr>df_Nameservers = Some [''10.96.0.10''], df_ClusterDomain = ''cluster.local''\<rparr>"
  have g: "getDNSClass ?p sample_pod = (sample_class, None)"
    using sample_class_applies
    by (simp add: getDNSClass_def select_DNSClass_find sample_mutator_def)
  have "DNSPolicy (dc_Spec sample_class) = DNSNone" "State (dc_Status sample_class) = StateReady"
    "st_DiscoveredFields (dc_Status sample_class) = Some ?df" "df_ClusterDomain ?df \<noteq> []"
    "Nameservers (class_config sample_class) \<noteq> None \<or> df_Nameservers ?df \<noteq> None"
    by (simp_all add: sample_class_def)
  note r = ready_class_configures_pods [OF sample_class_valid this _ _ g, where other = "\<lambda>_ _. Inl ParseError",
      of "\<lparr>Object_Raw = []\<rparr>"]
  have d: "Decode ?p \<lparr>Object_Raw = []\<rparr> = Some sample_pod" "pod_Namespace sample_pod \<noteq> []"
    "text_template ?p = run_template (\<lambda>_ _. Inl ParseError)" "\<forall>x. json_Marshal ?p x \<noteq> None"
    by (simp_all add: sample_mutator_def sample_pod_def)
  note r = r [OF d]
  have all: "\<forall>s \<in> set (class_searches sample_class). \<exists>t. rendered (\<lambda>_ _. Inl ParseError) (pod_params sample_pod ?df) s = Inr t"
    using r [THEN conjunct1] sample_class_simple by blast
  from r [THEN conjunct2, unfolded if_P [OF all]] show ?thesis by auto
qed

text \<open>
  Validation looks for the keys of a search only, so it lets through searches that no template
  engine parses: a field that is not closed, a key without its dot, an empty action. A class with
  such a search becomes ready and configures no pod.
\<close>

definition slip_class :: "string \<Rightarrow> DNSClass" where
  "slip_class search = (user_class DNSNone)
     \<lparr>dc_Spec := (dc_Spec (user_class DNSNone))
       \<lparr>DNSConfig := Some (empty_PodDNSConfig\<lparr>Searches := Some [search]\<rparr>)\<rparr>\<rparr>"

lemma slip_malformed:
  "list_all malformed_template [''{{ .clusterDomain'', ''svc.{{ clusterDomain }}'', ''{{}}'']"
  by code_simp

theorem malformed_search_accepted:
  "list_all (\<lambda>search. validate (Default (slip_class search)) = None)
     [''{{ .clusterDomain'', ''svc.{{ clusterDomain }}'', ''{{}}'']"
  by code_simp

theorem malformed_search_fails:
  assumes "class_searches dc = [search]" and "malformed_template search"
    and "DNSPolicy (dc_Spec dc) = DNSNone" and "st_DiscoveredFields (dc_Status dc) = Some df"
  shows "configureDNSForPod (run_template other) pod dc = Ret (pod, Some (SearchParse search))"
proof -
  have "rendered other m search = Inl ParseError" for m
    using assms(2) by (simp add: rendered_def simple_template_def malformed_template_def)
  then show ?thesis
    using assms(1) unfolding configure_none_policy [OF assms(3,4)] render_searches_first_error run_template_rendered
    by simp
qed

theorem malformed_search_fails_witness:
  "configureDNSForPod (run_template other) sample_pod ((slip_class ''{{}}'')
     \<lparr>dc_Status := empty_DNSClassStatus\<lparr>st_DiscoveredFields := Some empty_DiscoveredFields\<rparr>\<rparr>) =
   Ret (sample_pod, Some (SearchParse ''{{}}''))"
  by (rule malformed_search_fails)
    (use slip_malformed in \<open>simp_all add: slip_class_def user_class_def class_searches_def empty_PodDNSConfig_def\<close>)

text \<open>
  Admitting a configured pod again: the class that configured a pod still applies to it
  exactly when the class allows its own policy. With allowed policies that leave it out, an update
  of the pod is matched against the other classes only.
\<close>

theorem configured_pod_reapplies:
  assumes "configureDNSForPod render pod dc = Ret (pod', None)" and "class_applies pod dc"
  shows "class_applies pod' dc \<longleftrightarrow> DNSPolicy (dc_Spec dc) \<in> set (elems (AllowedDNSPolicies (dc_Spec dc)))"
  using assms(1)
proof (cases rule: configure_Ret_cases)
  case other
  with assms(2) show ?thesis by (simp add: class_applies_def)
next
  case (none df searches)
  with assms(2) show ?thesis by (simp add: class_applies_def)
qed

theorem configured_pod_reapplies_witness:
  "\<exists>pod'. configureDNSForPod (\<lambda>_ _. Inr []) sample_pod sample_class = Ret (pod', None) \<and>
     class_applies pod' sample_class"
proof -
  obtain pod' where c: "configureDNSForPod (\<lambda>_ _. Inr []) sample_pod sample_class = Ret (pod', None)"
    by (simp add: configureDNSForPod_def sample_class_def finish_pod_def)
  from configured_pod_reapplies [OF c sample_class_applies] c show ?thesis
    by (auto simp: sample_class_def)
qed

end
