(* ===== verification/Concurrency.thy ===== *)
theory Concurrency
  imports System
begin

text \<open>
  Runs of the reconciler that are interleaved with everything else: users who create, change and
  delete classes through the webhooks, other runs of the reconciler (the manager starts several
  workers), and a client that reads from a cache and may return a class as it was at any earlier
  time. The locale \<open>concurrent_api\<close> is this client; inside it a run is shown to be a sequence
  of the steps of users and of writes of final statuses, so that what holds of these steps holds
  of any interleaving.
\<close>

section \<open>Steps\<close>

text \<open>
  One step of anyone, where \<open>pol\<close> is the policy that the users give to the class of a name, also
  when they delete it and create it anew. The status that a run writes is final, and holds
  discovered fields when the class of that name needs them.
\<close>

inductive atom :: "(NamespacedName \<Rightarrow> DNSPolicy_t) \<Rightarrow> cluster \<Rightarrow> cluster \<Rightarrow> bool"
  for pol :: "NamespacedName \<Rightarrow> DNSPolicy_t" where
  create: "ValidateCreate (Default obj) = None \<Longrightarrow> find_class (key obj) cs = None \<Longrightarrow>
    DNSPolicy (dc_Spec (Default obj)) = pol (key obj) \<Longrightarrow>
    atom pol cs (cs @ [(Default obj)\<lparr>dc_Status := empty_DNSClassStatus, dc_Generation := 1\<rparr>])"
| update: "find_class (key obj) cs = Some old \<Longrightarrow> ValidateUpdate old (Default obj) = None \<Longrightarrow>
    DNSPolicy (dc_Spec (Default obj)) = pol (key obj) \<Longrightarrow> atom pol cs (put_spec (Default obj) cs)"
| delete: "find_class nn cs = Some old \<Longrightarrow> ValidateDelete old = None \<Longrightarrow>
    atom pol cs (filter (\<lambda>d. key d \<noteq> nn) cs)"
| final_status: "State (dc_Status w) \<in> {StateReady, StateError} \<Longrightarrow>
    (State (dc_Status w) = StateReady \<and> pol (key w) = DNSNone \<longrightarrow> st_DiscoveredFields (dc_Status w) \<noteq> None) \<Longrightarrow>
    atom pol cs (put_status w cs)"

abbreviation atoms :: "(NamespacedName \<Rightarrow> DNSPolicy_t) \<Rightarrow> cluster \<Rightarrow> cluster \<Rightarrow> bool" where
  "atoms pol \<equiv> (atom pol)\<^sup>*\<^sup>*"

text \<open>The clusters at any moment of any interleaving.\<close>

definition reached :: "(NamespacedName \<Rightarrow> DNSPolicy_t) \<Rightarrow> cluster \<Rightarrow> bool" where
  "reached pol cs \<longleftrightarrow> atoms pol [] cs"

lemma reached_init: "reached pol []"
  by (simp add: reached_def)

lemma reached_atoms: "reached pol cs \<Longrightarrow> atoms pol cs cs' \<Longrightarrow> reached pol cs'"
  unfolding reached_def by (rule rtranclp_trans)

section \<open>What holds at any moment\<close>

definition follows_policy :: "(NamespacedName \<Rightarrow> DNSPolicy_t) \<Rightarrow> DNSClass \<Rightarrow> bool" where
  "follows_policy pol dc \<longleftrightarrow> DNSPolicy (dc_Spec dc) = pol (key dc) \<and> discovered_if_ready dc"

lemma atom_sound:
  assumes "atom pol cs cs'" and "sound_cluster cs"
  shows "sound_cluster cs'"
  using assms(1)
proof cases
  case (create obj)
  then show ?thesis using step_sound [OF step.create [of obj cs "\<lambda>_ _. True"] assms(2)] by simp
next
  case (update obj old)
  then show ?thesis using step_sound [OF step.update [of obj cs old "\<lambda>_ _. True"] assms(2)] by simp
next
  case (delete nn old)
  then show ?thesis using step_sound [OF step.delete [of nn cs old "\<lambda>_ _. True"] assms(2)] by simp
next
  case (final_status w)
  then show ?thesis using sound_put_status [OF assms(2), of w] by (auto simp: known_states_def)
qed

lemma atom_follows:
  assumes "atom pol cs cs'" and "sound_cluster cs" and "\<forall>dc \<in> set cs. follows_policy pol dc"
  shows "\<forall>dc \<in> set cs'. follows_policy pol dc"
  using assms(1)
proof cases
  case (create obj)
  with assms(3) show ?thesis
    by (auto simp: follows_policy_def discovered_if_ready_def empty_DNSClassStatus_def StateReady_def)
next
  case (update obj old)
  have "follows_policy pol (d\<lparr>dc_Spec := dc_Spec (Default obj), dc_Generation := g\<rparr>)"
    if "d \<in> set cs" "key d = key obj" for d g
  proof -
    have "DNSPolicy (dc_Spec d) = pol (key obj)" "discovered_if_ready d"
      using assms(3) that by (auto simp: follows_policy_def)
    then show ?thesis using update(4) that(2) by (auto simp: follows_policy_def discovered_if_ready_def)
  qed
  with assms(3) show ?thesis by (auto simp: update(1) put_spec_def)
next
  case (delete nn old)
  with assms(3) show ?thesis by auto
next
  case (final_status w)
  have "follows_policy pol (d\<lparr>dc_Status := dc_Status w\<rparr>)" if "d \<in> set cs" "key d = key w" for d
    using assms(3) that final_status(2,3)
    by (auto simp: follows_policy_def discovered_if_ready_def StateReady_def StateError_def)
  with assms(3) show ?thesis by (auto simp: final_status(1) set_put_status)
qed

lemma reached_inv:
  assumes "reached pol cs"
  shows "sound_cluster cs \<and> (\<forall>dc \<in> set cs. follows_policy pol dc)"
  using assms unfolding reached_def
proof (induction rule: rtranclp_induct)
  case base
  show ?case by (simp add: sound_cluster_def)
next
  case (step cs cs')
  then show ?case using atom_sound atom_follows by blast
qed

lemma reached_found:
  assumes "reached pol cs" and "find_class nn cs = Some dc"
  shows "key dc = nn" and "DNSPolicy (dc_Spec dc) = pol nn"
  using assms reached_inv [OF assms(1)] find_class_SomeD [OF assms(2)] by (auto simp: follows_policy_def)

section \<open>The client\<close>

text \<open>
  While a call is under way the others make any number of steps. A read answers a class of the name
  it was asked for, as it was stored at any moment of any interleaving, so also an old version from a cache; a status update
  may take effect, in the middle of the steps of the others, or not.
\<close>

locale concurrent_api =
  fixes pol :: "NamespacedName \<Rightarrow> DNSPolicy_t" and r :: "cluster Reconciler"
  assumes retry: "retry_contract r"
    and Get_key: "client_Get r nn w = (Inr dc, w') \<Longrightarrow> key dc = nn"
    and Get_class: "reached pol w \<Longrightarrow> client_Get r nn w = (Inr dc, w') \<Longrightarrow>
      \<exists>w0. reached pol w0 \<and> find_class nn w0 = Some dc"
    and Get_world: "reached pol w \<Longrightarrow> atoms pol w (snd (client_Get r nn w))"
    and ListNodes_world: "reached pol w \<Longrightarrow> atoms pol w (snd (client_ListNodes r w))"
    and GetRaw_world: "reached pol w \<Longrightarrow> atoms pol w (snd (rest_GetRaw r c url w))"
    and Now_world: "reached pol w \<Longrightarrow> atoms pol w (snd (time_Now r w))"
    and StatusUpdate_world: "reached pol w \<Longrightarrow>
      \<exists>w0. atoms pol w w0 \<and> (atoms pol w0 (snd (client_StatusUpdate r dc w)) \<or>
        atoms pol (put_status dc w0) (snd (client_StatusUpdate r dc w)))"
begin

lemma effect_reads:
  assumes "reached pol w" and "is_read_or_event a"
  shows "atoms pol w (effect r a w)"
  using assms Get_world ListNodes_world GetRaw_world by (cases a) auto

text \<open>The status a run sends is one that the steps allow.\<close>

lemma sent_status:
  assumes "reached pol w0" and "find_class nn w0 = Some dc" and "final_write dc err x"
  shows "atom pol cs (put_status x cs)"
proof (rule atom.final_status)
  show "State (dc_Status x) \<in> {StateReady, StateError}"
    using assms(3) by (auto simp: final_write_def)
  show "State (dc_Status x) = StateReady \<and> pol (key x) = DNSNone \<longrightarrow> st_DiscoveredFields (dc_Status x) \<noteq> None"
    using assms(3) reached_found [OF assms(1,2)]
    by (auto simp: final_write_def StateReady_def StateError_def split: if_splits)
qed

text \<open>A run is a sequence of steps, whatever the others do meanwhile.\<close>

lemma run_refines:
  assumes cs: "reached pol cs" and run: "Reconcile r nn (start cs) = Ret (err, s')"
  shows "atoms pol cs (world s')"
proof (rule adds_world [OF Reconcile_writes [OF Get_key retry run], where J = "atoms pol cs"])
  show "atoms pol cs (world (start cs))" by (simp add: start_def)
  show "atoms pol cs (snd (time_Now r w))" if "atoms pol cs w" for w
    using Now_world [OF reached_atoms [OF cs that]] that by (rule rtranclp_trans [rotated])
  fix a w
  assume P: "is_read_or_event a \<or> (\<exists>x dc0 s0. a = DidStatusUpdate x \<and>
      call (DidGet nn) (client_Get r nn) (start cs) = (Inr dc0, s0) \<and> final_write dc0 err x)"
    and w: "atoms pol cs w"
  note rw = reached_atoms [OF cs w]
  show "atoms pol cs (effect r a w)"
  proof (cases "is_read_or_event a")
    case True
    from w effect_reads [OF rw True] show ?thesis by (rule rtranclp_trans)
  next
    case False
    with P obtain x dc0 s0 where a: "a = DidStatusUpdate x" and final: "final_write dc0 err x"
      and get: "call (DidGet nn) (client_Get r nn) (start cs) = (Inr dc0, s0)" by blast
    from get have "client_Get r nn cs = (Inr dc0, world s0)"
      by (auto simp: call_def start_def split: prod.splits)
    then obtain w0 where found: "reached pol w0" "find_class nn w0 = Some dc0"
      using Get_class [OF cs] by blast
    note put = sent_status [OF found final]
    obtain w1 where w1: "atoms pol w w1" "atoms pol w1 (effect r a w) \<or> atoms pol (put_status x w1) (effect r a w)"
      using StatusUpdate_world [OF rw] unfolding a effect.simps by blast
    then have "atoms pol w1 (effect r a w)" using put converse_rtranclp_into_rtranclp by metis
    with w w1(1) show ?thesis by (meson rtranclp_trans)
  qed
qed

end

section \<open>An instance: a stale cache and a class that is deleted during the run\<close>

definition first_version :: DNSClass where
  "first_version = stored_class DNSClusterFirst"

definition stale_client :: "cluster Reconciler" where
  "stale_client = (cluster_reconciler kubelet_sample)
     \<lparr>client_Get := (\<lambda>nn w.
        (if nn = key first_version then Inr first_version else Inl (NotFound ''not found''),
         filter (\<lambda>d. key d \<noteq> nn) w)),
      client_StatusUpdate := (\<lambda>dc w.
        (case find_class (key dc) w of
           None \<Rightarrow> (Some (NotFound ''not found''), w) | Some _ \<Rightarrow> (None, put_status dc w)))\<rparr>"

abbreviation cluster_first :: "NamespacedName \<Rightarrow> DNSPolicy_t" where
  "cluster_first \<equiv> (\<lambda>_. DNSClusterFirst)"

lemma reached_first_version: "reached cluster_first [first_version]"
proof -
  let ?obj = "user_class DNSClusterFirst"
  have v: "ValidateCreate (Default ?obj) = None"
    by (simp add: ValidateCreate_def user_class_valid ValidDNSPolicies_def)
  have "DNSPolicy (dc_Spec (Default ?obj)) = DNSClusterFirst"
    by (simp add: Default_def default_AllowedDNSPolicies_def default_DNSPolicy_def user_class_def policy_defs)
  with v have "atom cluster_first [] ([] @ [(Default ?obj)\<lparr>dc_Status := empty_DNSClassStatus, dc_Generation := 1\<rparr>])"
    by (intro atom.create) (simp_all add: find_class_def)
  then show ?thesis by (simp add: reached_def first_version_def stored_class_def r_into_rtranclp)
qed

lemma atoms_delete: "atoms pol w (filter (\<lambda>d. key d \<noteq> nn) w)"
proof (cases "find_class nn w")
  case None
  then have "filter (\<lambda>d. key d \<noteq> nn) w = w" by (auto simp: find_class_None filter_id_conv)
  then show ?thesis by simp
next
  case (Some d)
  then show ?thesis by (intro r_into_rtranclp atom.delete) (simp_all add: ValidateDelete_def)
qed

interpretation stale: concurrent_api cluster_first stale_client
proof
  show "retry_contract stale_client"
    by (auto simp: retry_contract_def stale_client_def cluster_reconciler_def)
  fix nn w dc w'
  assume g: "client_Get stale_client nn w = (Inr dc, w')"
  then show "key dc = nn" by (auto simp: stale_client_def split: if_splits)
  show "\<exists>w0. reached cluster_first w0 \<and> find_class nn w0 = Some dc"
    using g reached_first_version by (auto simp: stale_client_def find_class_def split: if_splits)
next
  fix w dc
  show "\<exists>w0. atoms cluster_first w w0 \<and> (atoms cluster_first w0 (snd (client_StatusUpdate stale_client dc w)) \<or>
      atoms cluster_first (put_status dc w0) (snd (client_StatusUpdate stale_client dc w)))"
    by (rule exI [of _ w]) (auto simp: stale_client_def split: option.split)
qed (simp_all add: stale_client_def cluster_reconciler_def atoms_delete)

lemma stale_run:
  "\<exists>s'. Reconcile stale_client (key first_version) (start [first_version]) = Ret (None, s') \<and> world s' = []"
  by (simp add: stale_client_def cluster_reconciler_def first_version_def stored_class_eval sample_eval)

section \<open>What any interleaving promises\<close>

text \<open>
  C15. A run of the reconciler among any steps of users and of other runs, and with any stale reads,
  is itself a sequence of the users' steps and of writes of final statuses, where a class of a
  name whose policy is \<open>None\<close> becomes ready with discovered fields only. So runs can be added to an
  interleaving without changing what holds at every moment of it.
\<close>

theorem runs_refine_steps:
  assumes "concurrent_api pol r" and "reached pol cs" and "Reconcile r nn (start cs) = Ret (err, s')"
  shows "(atom pol)\<^sup>*\<^sup>* cs (world s') \<and> reached pol (world s')"
  using concurrent_api.run_refines [OF assms] reached_atoms [OF assms(2)] by blast

theorem runs_refine_steps_witness:
  "\<exists>s'. Reconcile stale_client (key first_version) (start [first_version]) = Ret (None, s') \<and>
     world s' = [] \<and> reached cluster_first (world s')"
proof -
  obtain s' where s: "Reconcile stale_client (key first_version) (start [first_version]) = Ret (None, s')"
    "world s' = []" using stale_run by blast
  from runs_refine_steps [OF stale.concurrent_api_axioms reached_first_version s(1)] s show ?thesis by blast
qed

text \<open>
  C16. The pod webhook never panics as long as users stick to one policy per name, at any moment of
  any interleaving and on a list in which every class may be of another moment; every class it
  sees is valid and its state is unset or final.
\<close>

theorem no_panic_at_any_moment:
  assumes "List_classes p = Inr items"
    and "\<And>dc. dc \<in> set items \<Longrightarrow> \<exists>cs. reached pol cs \<and> dc \<in> set cs"
  shows "Handle p req \<noteq> Panic \<and>
    (\<forall>dc \<in> set items. valid_class dc \<and> DNSPolicy (dc_Spec dc) = pol (key dc) \<and>
       State (dc_Status dc) \<in> {[], StateReady, StateError})"
proof -
  have inv: "valid_class dc \<and> follows_policy pol dc \<and> State (dc_Status dc) \<in> {[], StateReady, StateError}"
    if "dc \<in> set items" for dc
    using assms(2) [OF that] reached_inv by (auto simp: sound_cluster_def known_states_def)
  have "Handle p req \<noteq> Panic"
    by (rule Handle_no_panic [OF assms(1)]) (use inv in \<open>simp add: follows_policy_def\<close>)
  then show ?thesis using inv by (simp add: follows_policy_def)
qed

theorem no_panic_at_any_moment_witness:
  "Handle (sample_mutator [first_version]) \<lparr>Object_Raw = []\<rparr> \<noteq> Panic \<and> valid_class first_version"
proof -
  have "List_classes (sample_mutator [first_version]) = Inr [first_version]" by (simp add: sample_mutator_def)
  from no_panic_at_any_moment [OF this, of cluster_first] reached_first_version show ?thesis by fastforce
qed

text \<open>
  One policy per name is needed also across deletions: a class that is deleted and created anew
  under the policy \<open>None\<close> between the first read and the write gets the status of its predecessor,
  since the write goes by the name alone, and a pod admitted then makes the webhook panic.
\<close>

definition recreating_client :: "(cluster \<times> DNSClass list) Reconciler" where
  "recreating_client =
     \<lparr>client_Get = (\<lambda>nn (cs, us).
        (case find_class nn cs of None \<Rightarrow> Inl (NotFound ''not found'') | Some dc \<Rightarrow> Inr dc,
         case us of
           [] \<Rightarrow> (cs, [])
         | u # us \<Rightarrow> (filter (\<lambda>d. key d \<noteq> key u) cs @
             [u\<lparr>dc_Status := empty_DNSClassStatus, dc_Generation := 1\<rparr>], us))),
      client_StatusUpdate = (\<lambda>dc (cs, us). (None, (put_status dc cs, us))),
      client_ListNodes = (\<lambda>w. (Inr [''node''], w)),
      Config = \<lparr>GroupVersion = None, NegotiatedSerializer = None, rest_Other = []\<rparr>,
      RESTClientFor = (\<lambda>_. None),
      rest_GetRaw = (\<lambda>_ _ w. (Inr [], w)),
      json_Unmarshal = (\<lambda>_. kubelet_sample),
      time_Now = (\<lambda>w. (0, w)),
      SetStatusCondition = store_condition,
      RetryOnConflict = attempts 4\<rparr>"

theorem recreated_class_panics:
  "\<exists>s' dc. Reconcile recreating_client (key (stored_class DNSClusterFirst))
       (start ([stored_class DNSClusterFirst], [Default (user_class DNSNone)])) = Ret (None, s') \<and>
     world s' = ([dc], []) \<and> dc_Generation dc = 1 \<and> Handle (sample_mutator [dc]) req = Panic"
proof -
  let ?dc = "(stored_class DNSNone)\<lparr>dc_Status := dc_Status ready_class\<rparr>"
  have "\<exists>s'. Reconcile recreating_client (key (stored_class DNSClusterFirst))
       (start ([stored_class DNSClusterFirst], [Default (user_class DNSNone)])) = Ret (None, s') \<and>
     world s' = ([?dc], [])"
    by (simp add: recreating_client_def ready_class_def stored_class_eval sample_eval)
  moreover have "Handle (sample_mutator [?dc]) req = Panic"
    by (simp add: Handle_def sample_mutator_def getDNSClass_def sample_pod_def ready_class_def
        stored_class_eval configureDNSForPod_def empty_DNSClass_def empty_DNSClassSpec_def
        DefaultDNSPolicies_def policy_defs)
  moreover have "dc_Generation ?dc = 1" by (simp add: stored_class_def)
  ultimately show ?thesis by blast
qed

end
