(* ===== verification/Controller_Loop.thy ===== *)
theory Controller_Loop
  imports System
begin

text \<open>
  The reconciler behind its work queue, as \<open>SetupWithManager\<close> asks the library for it: the watch
  events of the classes go through the event filter and put the keys they are about into a queue,
  workers take keys and run \<open>Reconcile\<close>, and a run that returns an error is queued again. Of the
  API server nothing is assumed but what it stores and answers; any call may fail. What the others
  do during a run is a rely relation, what a run does to the others is shown to be steps of the
  loop. Every class that is not ready for its specification stays queued, unless the status
  update of a run fails, whose error \<open>Reconcile\<close> only logs.
\<close>

section \<open>The loop\<close>

record loop =
  objects :: cluster
  queue :: "NamespacedName list"
  active :: "NamespacedName list"

definition enqueue :: "NamespacedName \<Rightarrow> loop \<Rightarrow> loop" where
  "enqueue k c = c\<lparr>queue := (if k \<in> set (queue c) then queue c else queue c @ [k])\<rparr>"

fun event_key :: "watch_event \<Rightarrow> NamespacedName" where
  "event_key (CreateEvent obj) = key obj"
| "event_key (UpdateEvent objOld objNew) = key objNew"
| "event_key (DeleteEvent obj) = key obj"
| "event_key (GenericEvent obj) = key obj"

text \<open>An event that the filter lets through queues the key of its object.\<close>

definition deliver :: "watch_event \<Rightarrow> loop \<Rightarrow> loop" where
  "deliver e c = (if dnsClassPredicate e then enqueue (event_key e) c else c)"

definition take_key :: "NamespacedName \<Rightarrow> loop \<Rightarrow> loop" where
  "take_key k c = c\<lparr>queue := removeAll k (queue c), active := k # active c\<rparr>"

definition finish_key :: "NamespacedName \<Rightarrow> bool \<Rightarrow> loop \<Rightarrow> loop" where
  "finish_key k failed c =
     (let c = c\<lparr>active := removeAll k (active c)\<rparr> in if failed then enqueue k c else c)"

text \<open>A class that needs no run: it is ready, and with the policy \<open>None\<close> it holds discovered fields.\<close>

definition settled :: "DNSClass \<Rightarrow> bool" where
  "settled dc \<longleftrightarrow> State (dc_Status dc) = StateReady \<and> discovered_if_ready dc"

text \<open>The steps of users, with the events they cause.\<close>

inductive user_step :: "loop \<Rightarrow> loop \<Rightarrow> bool" where
  create: "ValidateCreate (Default obj) = None \<Longrightarrow> find_class (key obj) (objects c) = None \<Longrightarrow>
    new = (Default obj)\<lparr>dc_Status := empty_DNSClassStatus, dc_Generation := 1\<rparr> \<Longrightarrow>
    user_step c (deliver (CreateEvent new) (c\<lparr>objects := objects c @ [new]\<rparr>))"
| update: "find_class (key obj) (objects c) = Some old \<Longrightarrow> ValidateUpdate old (Default obj) = None \<Longrightarrow>
    find_class (key obj) (put_spec (Default obj) (objects c)) = Some new \<Longrightarrow>
    user_step c (deliver (UpdateEvent old new) (c\<lparr>objects := put_spec (Default obj) (objects c)\<rparr>))"
| delete: "find_class nn (objects c) = Some old \<Longrightarrow> ValidateDelete old = None \<Longrightarrow>
    user_step c (deliver (DeleteEvent old) (c\<lparr>objects := filter (\<lambda>d. key d \<noteq> nn) (objects c)\<rparr>))"

text \<open>
  The steps of the worker that has the key \<open>j\<close>: it takes the key, writes final statuses, and
  gives the key back, queued again when the run has failed.
\<close>

inductive worker_step :: "NamespacedName \<Rightarrow> loop \<Rightarrow> loop \<Rightarrow> bool" where
  take_next: "j \<in> set (queue c) \<Longrightarrow> j \<notin> set (active c) \<Longrightarrow> worker_step j c (take_key j c)"
| status: "j \<in> set (active c) \<Longrightarrow> find_class j (objects c) = Some old \<Longrightarrow> key w = j \<Longrightarrow>
    State (dc_Status w) \<in> {StateReady, StateError} \<Longrightarrow>
    worker_step j c (deliver (UpdateEvent old (old\<lparr>dc_Status := dc_Status w\<rparr>))
      (c\<lparr>objects := put_status w (objects c)\<rparr>))"
| finish: "j \<in> set (active c) \<Longrightarrow> worker_step j c (finish_key j failed c)"

text \<open>
  What is expected of a worker that gives its key back: the key is queued again, or the class under
  it is settled. It is shown below of runs of \<open>Reconcile\<close> whose status update arrives.
\<close>

definition keeps_promise :: "NamespacedName \<Rightarrow> loop \<Rightarrow> loop \<Rightarrow> bool" where
  "keeps_promise j c c' \<longleftrightarrow>
     (j \<in> set (active c) \<and> j \<notin> set (active c') \<longrightarrow>
      j \<in> set (queue c') \<or> (\<forall>dc. find_class j (objects c') = Some dc \<longrightarrow> settled dc))"

text \<open>Starting the manager anew stops all workers and queues every stored class.\<close>

definition restart :: "loop \<Rightarrow> loop" where
  "restart c = fold (\<lambda>dc. deliver (CreateEvent dc)) (objects c) (c\<lparr>queue := [], active := []\<rparr>)"

text \<open>The loop whose workers keep the promise.\<close>

inductive loop_step :: "loop \<Rightarrow> loop \<Rightarrow> bool" where
  user: "user_step c c' \<Longrightarrow> loop_step c c'"
| worker: "worker_step j c c' \<Longrightarrow> keeps_promise j c c' \<Longrightarrow> loop_step c c'"
| restarted: "loop_step c (restart c)"

definition empty_loop :: loop where
  "empty_loop = \<lparr>objects = [], queue = [], active = []\<rparr>"

section \<open>The invariant of the loop\<close>

lemma enqueue_simps [simp]:
  "objects (enqueue k c) = objects c" "active (enqueue k c) = active c"
  "set (queue (enqueue k c)) = insert k (set (queue c))"
  by (auto simp: enqueue_def)

lemma deliver_simps [simp]:
  "objects (deliver e c) = objects c" "active (deliver e c) = active c"
  "set (queue (deliver e c)) =
     (if dnsClassPredicate e then insert (event_key e) (set (queue c)) else set (queue c))"
  by (auto simp: deliver_def)

lemma deliver_status [simp]: "deliver (UpdateEvent old (old\<lparr>dc_Status := st\<rparr>)) c = c"
  by (simp add: deliver_def)

lemma take_key_simps [simp]:
  "objects (take_key k c) = objects c" "active (take_key k c) = k # active c"
  "set (queue (take_key k c)) = set (queue c) - {k}"
  by (auto simp: take_key_def)

lemma finish_key_simps [simp]:
  "objects (finish_key k failed c) = objects c" "set (active (finish_key k failed c)) = set (active c) - {k}"
  "set (queue (finish_key k failed c)) = (if failed then insert k (set (queue c)) else set (queue c))"
  by (auto simp: finish_key_def Let_def)

lemma restart_simps [simp]:
  "objects (restart c) = objects c" "active (restart c) = []" "set (queue (restart c)) = key ` set (objects c)"
proof -
  have "objects (fold (\<lambda>dc. deliver (CreateEvent dc)) ds c) = objects c \<and>
      active (fold (\<lambda>dc. deliver (CreateEvent dc)) ds c) = active c \<and>
      set (queue (fold (\<lambda>dc. deliver (CreateEvent dc)) ds c)) = set (queue c) \<union> key ` set ds" for ds c
    by (induction ds arbitrary: c) auto
  then show "objects (restart c) = objects c" "active (restart c) = []"
    "set (queue (restart c)) = key ` set (objects c)"
    by (simp_all add: restart_def)
qed

lemma find_put_spec:
  "find_class k (put_spec dc cs) =
     (if k = key dc then map_option (\<lambda>d. d\<lparr>dc_Spec := dc_Spec dc,
        dc_Generation := (if dc_Spec dc = dc_Spec d then dc_Generation d else dc_Generation d + 1)\<rparr>) (find_class k cs)
      else find_class k cs)"
  by (induction cs) (auto simp: find_class_def put_spec_def)

lemma find_put_status_iff:
  "find_class k (put_status w cs) =
     (if k = key w then map_option (\<lambda>d. d\<lparr>dc_Status := dc_Status w\<rparr>) (find_class k cs) else find_class k cs)"
  by (induction cs) (auto simp: find_class_def put_status_def)

lemma find_class_append: "key new \<noteq> k \<Longrightarrow> find_class k (cs @ [new]) = find_class k cs"
  by (induction cs) (auto simp: find_class_def)

lemma find_class_filter: "find_class k (filter (\<lambda>d. key d \<noteq> nn) cs) = (if k = nn then None else find_class k cs)"
  by (induction cs) (auto simp: find_class_def)



text \<open>What a step leaves of the class under a key it is not about, or that it queues.\<close>

definition undisturbed :: "NamespacedName \<Rightarrow> loop \<Rightarrow> loop \<Rightarrow> bool" where
  "undisturbed k c c' \<longleftrightarrow>
     (k \<in> set (queue c) \<longrightarrow> k \<in> set (queue c')) \<and> (k \<in> set (active c) \<longrightarrow> k \<in> set (active c')) \<and>
     (k \<in> set (queue c') \<or> find_class k (objects c') = find_class k (objects c) \<or>
        find_class k (objects c') = None)"

lemma undisturbed_refl [simp]: "undisturbed k c c"
  by (simp add: undisturbed_def)

lemma undisturbed_trans: "undisturbed k a b \<Longrightarrow> undisturbed k b c \<Longrightarrow> undisturbed k a c"
  unfolding undisturbed_def by metis

lemma user_undisturbed: "user_step c c' \<Longrightarrow> undisturbed k c c'"
proof (induction rule: user_step.induct)
  case (create obj c new)
  have "key new = key obj" by (simp add: create(3))
  then show ?case by (cases "key obj = k") (auto simp: undisturbed_def find_class_append)
next
  case (update obj c old new)
  show ?case
  proof (cases "k = key obj")
    case False
    then show ?thesis by (simp add: undisturbed_def find_put_spec)
  next
    case True
    have new: "new = old\<lparr>dc_Spec := dc_Spec (Default obj),
        dc_Generation := (if dc_Spec (Default obj) = dc_Spec old then dc_Generation old else dc_Generation old + 1)\<rparr>"
      using update(1,3) by (simp add: find_put_spec)
    have "key new = key obj" using find_class_SomeD [OF update(3)] by simp
    then show ?thesis
      using update(1,3) True new
      by (cases "dc_Spec (Default obj) = dc_Spec old") (auto simp: undisturbed_def)
  qed
next
  case (delete nn c old)
  then show ?case by (simp add: undisturbed_def find_class_filter)
qed

lemma worker_undisturbed: "worker_step j c c' \<Longrightarrow> j \<noteq> k \<Longrightarrow> undisturbed k c c'"
  by (induction rule: worker_step.induct) (auto simp: undisturbed_def find_put_status_iff)






text \<open>The key is queued, or the class under it has a property, as long as nobody disturbs it.\<close>

definition queued_or :: "NamespacedName \<Rightarrow> (DNSClass \<Rightarrow> bool) \<Rightarrow> loop \<Rightarrow> bool" where
  "queued_or k P c \<longleftrightarrow> k \<in> set (queue c) \<or> (\<forall>dc. find_class k (objects c) = Some dc \<longrightarrow> P dc)"

lemma queued_or_stable: "queued_or k P c \<Longrightarrow> undisturbed k c c' \<Longrightarrow> queued_or k P c'"
  by (auto simp: queued_or_def undisturbed_def)

section \<open>The client of one worker\<close>

text \<open>
  The steps of everyone but the worker that has the key \<open>k\<close>. With \<open>loyal\<close> the other workers keep
  the promise, without it they may fail to.
\<close>

inductive other_step :: "bool \<Rightarrow> NamespacedName \<Rightarrow> loop \<Rightarrow> loop \<Rightarrow> bool"
  for loyal :: bool and k :: NamespacedName where
  user: "user_step c c' \<Longrightarrow> other_step loyal k c c'"
| worker: "worker_step j c c' \<Longrightarrow> j \<noteq> k \<Longrightarrow> loyal \<longrightarrow> keeps_promise j c c' \<Longrightarrow> other_step loyal k c c'"

abbreviation others :: "bool \<Rightarrow> NamespacedName \<Rightarrow> loop \<Rightarrow> loop \<Rightarrow> bool" where
  "others loyal k \<equiv> (other_step loyal k)\<^sup>*\<^sup>*"

lemma others_undisturbed: "others loyal k c c' \<Longrightarrow> undisturbed k c c'"
  by (induction rule: rtranclp_induct)
    (auto elim!: other_step.cases intro: undisturbed_trans user_undisturbed worker_undisturbed)

lemma others_loop: "others loyal k c c' \<Longrightarrow> loyal \<Longrightarrow> loop_step\<^sup>*\<^sup>* c c'"
  by (induction rule: rtranclp_induct)
    (auto elim!: other_step.cases intro: loop_step.intros rtranclp.rtrancl_into_rtrancl)

text \<open>
  The client of a worker, with the steps of the others before and after each call takes effect. A
  read that succeeds returns what is stored, and one that fails with \<open>NotFound\<close> finds nothing.
  A status update that succeeds replaces the status of a stored class; one that is refused with a
  conflict or \<open>NotFound\<close> changes nothing, and after any other error, a timeout for one, it may have
  taken effect or not. Nothing is said of how often calls fail, and why.
\<close>

definition updated :: "DNSClass \<Rightarrow> loop \<Rightarrow> loop \<Rightarrow> bool" where
  "updated dc c c' \<longleftrightarrow>
     find_class (key dc) (objects c) \<noteq> None \<and> c' = c\<lparr>objects := put_status dc (objects c)\<rparr>"

fun update_answer :: "api_error option \<Rightarrow> DNSClass \<Rightarrow> loop \<Rightarrow> loop \<Rightarrow> bool" where
  "update_answer None dc c c' \<longleftrightarrow> updated dc c c'"
| "update_answer (Some (NotFound m)) dc c c' \<longleftrightarrow> c' = c \<and> find_class (key dc) (objects c) = None"
| "update_answer (Some (Conflict m)) dc c c' \<longleftrightarrow> c' = c"
| "update_answer (Some (OtherError m)) dc c c' \<longleftrightarrow> c' = c \<or> updated dc c c'"

text \<open>A write that has taken effect, or had nothing to take effect on.\<close>

definition arrived :: "api_error option \<Rightarrow> bool" where
  "arrived res \<longleftrightarrow> (case res of None \<Rightarrow> True | Some e \<Rightarrow> IsNotFound e)"

lemma update_answer_spec:
  "update_answer upd x c c' \<Longrightarrow> queued_or k (\<lambda>d. dc_Spec d = sp) c \<Longrightarrow> queued_or k (\<lambda>d. dc_Spec d = sp) c'"
  by (induction upd x c c' rule: update_answer.induct)
    (auto simp: updated_def queued_or_def find_put_status_iff split: if_splits)

lemma update_answer_settled:
  assumes "update_answer upd x c c'" and "arrived upd" and "State (dc_Status x) = StateReady"
    and "DNSPolicy sp = DNSNone \<longrightarrow> st_DiscoveredFields (dc_Status x) \<noteq> None"
    and "queued_or (key x) (\<lambda>d. dc_Spec d = sp) c"
  shows "queued_or (key x) settled c'"
  using assms
  by (induction upd x c c' rule: update_answer.induct)
    (auto simp: arrived_def updated_def queued_or_def find_put_status_iff settled_def discovered_if_ready_def)

locale worker_api =
  fixes loyal :: bool and k :: NamespacedName and r :: "loop Reconciler"
  assumes retry: "retry_contract r"
    and Get: "client_Get r nn c = (res, c') \<Longrightarrow>
      \<exists>c0. others loyal k c c0 \<and> others loyal k c0 c' \<and>
        (case res of
           Inr dc \<Rightarrow> find_class nn (objects c0) = Some dc
         | Inl e \<Rightarrow> IsNotFound e \<longrightarrow> find_class nn (objects c0) = None)"
    and ListNodes: "others loyal k c (snd (client_ListNodes r c))"
    and GetRaw: "others loyal k c (snd (rest_GetRaw r cfg url c))"
    and Now: "others loyal k c (snd (time_Now r c))"
    and StatusUpdate: "client_StatusUpdate r dc c = (upd, c') \<Longrightarrow>
      \<exists>c0 c1. others loyal k c c0 \<and> update_answer upd dc c0 c1 \<and> others loyal k c1 c'"
begin

lemma stable: "others loyal k c c' \<Longrightarrow> queued_or k P c \<Longrightarrow> queued_or k P c'"
  using queued_or_stable others_undisturbed by blast

text \<open>
  One attempt to write the status of a successful run: while the key is not queued the class keeps
  its specification, and when the attempt arrives the class is settled.
\<close>

lemma attempt_settles:
  assumes att: "write_attempt r w s = (res, s')" and key: "key w = k"
    and ready: "State (dc_Status w) = StateReady"
    and disc: "DNSPolicy sp = DNSNone \<longrightarrow> st_DiscoveredFields (dc_Status w) \<noteq> None"
    and same: "queued_or k (\<lambda>d. dc_Spec d = sp) (world s)"
  shows "queued_or k (\<lambda>d. dc_Spec d = sp) (world s')" and "arrived res \<Longrightarrow> queued_or k settled (world s')"
proof -
  obtain y c' where get: "client_Get r (key w) (world s) = (y, c')" by fastforce
  obtain c0 where c0: "others loyal k (world s) c0" "others loyal k c0 c'"
    "case y of Inr dc \<Rightarrow> find_class (key w) (objects c0) = Some dc
     | Inl e \<Rightarrow> IsNotFound e \<longrightarrow> find_class (key w) (objects c0) = None"
    using Get [OF get] by blast
  have same': "queued_or k (\<lambda>d. dc_Spec d = sp) c'" using same c0(1,2) stable by blast
  have "queued_or k (\<lambda>d. dc_Spec d = sp) (world s') \<and> (arrived res \<longrightarrow> queued_or k settled (world s'))"
  proof (cases y)
    case (Inl e)
    then have w: "world s' = c'" "res = Some e"
      using att get by (auto simp: write_attempt_def call_def Let_def key_def split: prod.splits)
    have "arrived res \<Longrightarrow> queued_or k settled c0"
      using c0(3) Inl key by (simp add: queued_or_def arrived_def w(2))
    then show ?thesis using stable [OF c0(2)] same' w(1) by blast
  next
    case (Inr dc)
    let ?x = "dc\<lparr>dc_Status := dc_Status w\<rparr>"
    have kx: "key ?x = k" using c0(3) Inr key find_class_SomeD by auto
    have u: "client_StatusUpdate r ?x c' = (res, world s')"
      using att get Inr by (auto simp: write_attempt_def call_def Let_def key_def split: prod.splits)
    obtain c1 c2 where c1: "others loyal k c' c1" "update_answer res ?x c1 c2" "others loyal k c2 (world s')"
      using StatusUpdate [OF u] by blast
    note q = stable [OF c1(1) same']
    have "arrived res \<Longrightarrow> queued_or k settled c2"
      using update_answer_settled [OF c1(2), of sp] ready disc q unfolding kx by simp
    then show ?thesis using update_answer_spec [OF c1(2) q] stable [OF c1(3)] by blast
  qed
  then show "queued_or k (\<lambda>d. dc_Spec d = sp) (world s')" "arrived res \<Longrightarrow> queued_or k settled (world s')"
    by blast+
qed

lemma reads_others:
  assumes "is_read_or_event a"
  shows "others loyal k c (effect r a c)"
proof (cases a)
  case (DidGet nn)
  obtain res c' where g: "client_Get r nn c = (res, c')" by fastforce
  from Get [OF g] have "others loyal k c c'" by (meson rtranclp_trans)
  with DidGet g show ?thesis by simp
qed (use assms ListNodes GetRaw in auto)

lemma adds_others:
  assumes "adds r P s t" and "\<And>a. P a \<Longrightarrow> is_read_or_event a"
  shows "others loyal k (world s) (world t)"
proof (rule adds_world [OF assms(1), where J = "others loyal k (world s)"])
  show "others loyal k (world s) (effect r a w)" if "P a" "others loyal k (world s) w" for a w
    using reads_others [OF assms(2) [OF that(1)]] that(2) by (rule rtranclp_trans [rotated])
  show "others loyal k (world s) (snd (time_Now r w))" if "others loyal k (world s) w" for w
    using that Now by (rule rtranclp_trans)
qed simp

lemma writeStatus_settles:
  assumes "writeStatus r w s = (None, s')" and "key w = k" and "State (dc_Status w) = StateReady"
    and "DNSPolicy sp = DNSNone \<longrightarrow> st_DiscoveredFields (dc_Status w) \<noteq> None"
    and same: "queued_or k (\<lambda>d. dc_Spec d = sp) (world s)"
  shows "queued_or k settled (world s')"
proof -
  obtain res where "RetryOnConflict r (write_attempt r w) s = (res, s')" and "arrived res"
    using assms(1) by (auto simp: writeStatus_def arrived_def split: prod.splits option.splits if_splits)
  moreover obtain n where "RetryOnConflict r (write_attempt r w) s = attempts n (write_attempt r w) s"
    using retry unfolding retry_contract_def by blast
  ultimately have a: "attempts n (write_attempt r w) s = (res, s')" by simp
  show ?thesis
    using same a
  proof (induction n arbitrary: s)
    case 0
    then show ?case using attempt_settles(2) [OF _ assms(2-4)] \<open>arrived res\<close> by simp
  next
    case (Suc n)
    obtain res1 s1 where f: "write_attempt r w s = (res1, s1)" by fastforce
    note q = attempt_settles [OF f assms(2-4) Suc.prems(1)]
    show ?case
      using Suc.IH [OF q(1)] Suc.prems(2) f q(2) \<open>arrived res\<close>
      by (auto split: option.splits api_error.splits)
  qed
qed

text \<open>
  A run that returns no error and whose status update arrives leaves the class settled, unless its
  key was queued again.
\<close>

lemma run_settles:
  assumes run: "Reconcile r k (start c) = Ret (None, s')" and log: "logged_error r k (start c) = None"
  shows "queued_or k settled (world s')"
  using run
proof (cases rule: Reconcile_cases)
  case (get_error e)
  then have "client_Get r k c = (Inl e, world s')" "IsNotFound e"
    by (auto simp: call_def start_def split: prod.splits if_splits)
  from Get [OF this(1)] this(2) obtain c0
    where "others loyal k c0 (world s')" "find_class k (objects c0) = None" by auto
  then show ?thesis using stable [of c0 "world s'"] by (simp add: queued_or_def)
next
  case (reconciled dc0 s0 dc msg e s1 x)
  have e: "e = None" and x: "x = None" using reconciled(5,6) log by simp_all
  have "client_Get r k c = (Inr dc0, world s0)"
    using reconciled(1) by (auto simp: call_def start_def split: prod.splits)
  from Get [OF this] obtain c0 where c0: "others loyal k c0 (world s0)" "find_class k (objects c0) = Some dc0"
    by auto
  obtain w s2 where w: "writeStatus r w s2 = (x, s')" and a2: "adds r (\<lambda>_. False) s1 s2"
    and st: "written_status r e msg dc (dc_Status w)" and same: "same_object dc w"
    using reconciled(4) by (rule updateStatus_cases)
  have "others loyal k c0 (world s2)"
    using c0(1) adds_others [OF reconciled(3)] adds_others [OF a2] by (meson rtranclp_trans)
  moreover have "queued_or k (\<lambda>d. dc_Spec d = dc_Spec dc0) c0" using c0(2) by (simp add: queued_or_def)
  ultimately have q: "queued_or k (\<lambda>d. dc_Spec d = dc_Spec dc0) (world s2)" by (rule stable)
  have "key w = k"
    using same reconciled(2) find_class_SomeD [OF c0(2)] by (simp add: body_result_def same_object_def key_def)
  moreover have "State (dc_Status w) = StateReady"
    "DNSPolicy (dc_Spec dc0) = DNSNone \<longrightarrow> st_DiscoveredFields (dc_Status w) \<noteq> None"
    using st reconciled(2) e by (simp_all add: written_status_def body_result_def)
  ultimately show ?thesis using writeStatus_settles [OF w [unfolded x]] q by blast
qed

lemma Get_key: "client_Get r nn c = (Inr dc, c') \<Longrightarrow> key dc = nn"
  using Get find_class_SomeD by fastforce

lemma others_steps:
  assumes loyal and "loop_step\<^sup>*\<^sup>* c w \<and> k \<in> set (active w)" and "others loyal k w w'"
  shows "loop_step\<^sup>*\<^sup>* c w' \<and> k \<in> set (active w')"
  using assms(1,2) others_loop [OF assms(3,1)] others_undisturbed [OF assms(3)]
  by (auto simp: undisturbed_def)

text \<open>A status update is steps of the others and at most one step of the worker.\<close>

lemma update_steps:
  assumes l: loyal and J: "loop_step\<^sup>*\<^sup>* c w \<and> k \<in> set (active w)" and x: "key x = k"
    and final: "State (dc_Status x) \<in> {StateReady, StateError}"
  shows "loop_step\<^sup>*\<^sup>* c (snd (client_StatusUpdate r x w)) \<and> k \<in> set (active (snd (client_StatusUpdate r x w)))"
proof -
  obtain upd w' where u: "client_StatusUpdate r x w = (upd, w')" by fastforce
  obtain c0 c1 where c0: "others loyal k w c0" "update_answer upd x c0 c1" "others loyal k c1 w'"
    using StatusUpdate [OF u] by blast
  note J0 = others_steps [OF l J c0(1)]
  have "c1 = c0 \<or> updated x c0 c1"
    using c0(2) by (induction upd x c0 c1 rule: update_answer.induct) auto
  moreover have "loop_step\<^sup>*\<^sup>* c c1 \<and> k \<in> set (active c1)" if "updated x c0 c1"
  proof -
    from that x obtain old where old: "find_class k (objects c0) = Some old"
      and c1: "c1 = c0\<lparr>objects := put_status x (objects c0)\<rparr>" by (auto simp: updated_def)
    have "worker_step k c0 c1" using worker_step.status [OF _ old x final] J0 unfolding c1 by simp
    then have "loop_step c0 c1"
      by (rule loop_step.worker) (simp add: keeps_promise_def c1)
    then show ?thesis using J0 by (auto simp: c1 intro: rtranclp.rtrancl_into_rtrancl)
  qed
  ultimately have "loop_step\<^sup>*\<^sup>* c c1 \<and> k \<in> set (active c1)" using J0 by blast
  from others_steps [OF l this c0(3)] u show ?thesis by simp
qed

text \<open>A run is steps of the loop, and its worker keeps the key.\<close>

lemma run_loop_steps:
  assumes l: loyal and run: "Reconcile r k (start c) = Ret (err, s')" and act: "k \<in> set (active c)"
  shows "loop_step\<^sup>*\<^sup>* c (world s') \<and> k \<in> set (active (world s'))"
proof (rule adds_world [OF Reconcile_writes [OF Get_key retry run],
      where J = "\<lambda>w. loop_step\<^sup>*\<^sup>* c w \<and> k \<in> set (active w)"])
  show "loop_step\<^sup>*\<^sup>* c (world (start c)) \<and> k \<in> set (active (world (start c)))" using act by (simp add: start_def)
  fix w
  assume J: "loop_step\<^sup>*\<^sup>* c w \<and> k \<in> set (active w)"
  then show "loop_step\<^sup>*\<^sup>* c (snd (time_Now r w)) \<and> k \<in> set (active (snd (time_Now r w)))"
    using Now by (rule others_steps [OF l])
  fix a
  assume P: "is_read_or_event a \<or> (\<exists>x dc0 s0. a = DidStatusUpdate x \<and>
      call (DidGet k) (client_Get r k) (start c) = (Inr dc0, s0) \<and> final_write dc0 err x)"
  show "loop_step\<^sup>*\<^sup>* c (effect r a w) \<and> k \<in> set (active (effect r a w))"
  proof (cases "is_read_or_event a")
    case True
    then show ?thesis using others_steps [OF l J reads_others] by blast
  next
    case False
    with P obtain x dc0 s0 where a: "a = DidStatusUpdate x" and f: "final_write dc0 err x"
      and get: "call (DidGet k) (client_Get r k) (start c) = (Inr dc0, s0)" by blast
    from get have "key dc0 = k"
      by (intro Get_key [of k c dc0 "world s0"]) (auto simp: call_def start_def split: prod.splits)
    with f have "key x = k" "State (dc_Status x) \<in> {StateReady, StateError}"
      by (auto simp: final_write_def)
    from update_steps [OF l J this] show ?thesis by (simp add: a)
  qed
qed

text \<open>
  With the key taken before and given back after it, the run is steps of the loop, provided that
  it returns an error or its status update arrives.
\<close>

lemma worker_run:
  assumes l: loyal and "k \<in> set (queue c)" and "k \<notin> set (active c)"
    and run: "Reconcile r k (start (take_key k c)) = Ret (err, s')"
    and log: "err \<noteq> None \<or> logged_error r k (start (take_key k c)) = None"
  shows "loop_step\<^sup>*\<^sup>* c (finish_key k (err \<noteq> None) (world s'))"
proof -
  have "loop_step c (take_key k c)"
    by (rule loop_step.worker [OF worker_step.take_next [OF assms(2,3)]]) (simp add: keeps_promise_def)
  moreover have s: "loop_step\<^sup>*\<^sup>* (take_key k c) (world s')" "k \<in> set (active (world s'))"
    using run_loop_steps [OF l run] by simp_all
  moreover have "keeps_promise k (world s') (finish_key k (err \<noteq> None) (world s'))"
    using run_settles [of "take_key k c" s'] run log
    by (cases err) (auto simp: queued_or_def keeps_promise_def)
  with s have "loop_step (world s') (finish_key k (err \<noteq> None) (world s'))"
    by (intro loop_step.worker [OF worker_step.finish])
  ultimately show ?thesis
    by (meson converse_rtranclp_into_rtranclp rtranclp.rtrancl_into_rtrancl)
qed

end

section \<open>Instances\<close>

text \<open>A client that works on the loop, with what the others do after every read.\<close>

definition loop_client :: "(NamespacedName \<Rightarrow> loop \<Rightarrow> loop) \<Rightarrow> loop Reconciler" where
  "loop_client meanwhile =
     \<lparr>client_Get = (\<lambda>nn c. (case find_class nn (objects c) of
         None \<Rightarrow> Inl (NotFound ''not found'') | Some dc \<Rightarrow> Inr dc, meanwhile nn c)),
      client_StatusUpdate = (\<lambda>dc c. (case find_class (key dc) (objects c) of
         None \<Rightarrow> (Some (NotFound ''not found''), c)
       | Some _ \<Rightarrow> (None, c\<lparr>objects := put_status dc (objects c)\<rparr>))),
      client_ListNodes = (\<lambda>c. (Inr [''node''], c)),
      Config = \<lparr>GroupVersion = None, NegotiatedSerializer = None, rest_Other = []\<rparr>,
      RESTClientFor = (\<lambda>_. None),
      rest_GetRaw = (\<lambda>_ _ c. (Inr [], c)),
      json_Unmarshal = (\<lambda>_. kubelet_sample),
      time_Now = (\<lambda>c. (0, c)),
      SetStatusCondition = store_condition,
      RetryOnConflict = attempts 4\<rparr>"

lemma loop_client_api:
  assumes "\<And>nn c. others loyal k c (meanwhile nn c)"
  shows "worker_api loyal k (loop_client meanwhile)"
proof
  show "retry_contract (loop_client meanwhile)"
    by (auto simp: retry_contract_def loop_client_def)
  show "\<exists>c0. others loyal k c c0 \<and> others loyal k c0 c' \<and>
      (case res of Inr dc \<Rightarrow> find_class nn (objects c0) = Some dc
       | Inl e \<Rightarrow> IsNotFound e \<longrightarrow> find_class nn (objects c0) = None)"
    if "client_Get (loop_client meanwhile) nn c = (res, c')" for nn c res c'
    using that assms [of c nn]
    by (intro exI [of _ c]) (auto simp: loop_client_def split: option.splits)
  show "\<exists>c0 c1. others loyal k c c0 \<and> update_answer upd dc c0 c1 \<and> others loyal k c1 c'"
    if "client_StatusUpdate (loop_client meanwhile) dc c = (upd, c')" for dc c upd c'
    using that
    by (intro exI [of _ c] exI [of _ c']) (auto simp: loop_client_def updated_def split: option.splits)
qed (simp_all add: loop_client_def)

interpretation quiet: worker_api loyal k "loop_client (\<lambda>_ c. c)" for loyal k
  by (rule loop_client_api) simp

text \<open>A class that another user changes to the policy \<open>None\<close> as soon as it was read.\<close>

definition change_policy :: "NamespacedName \<Rightarrow> loop \<Rightarrow> loop" where
  "change_policy nn c =
     (case (find_class (key (user_class DNSNone)) (objects c),
            find_class (key (user_class DNSNone)) (put_spec (Default (user_class DNSNone)) (objects c))) of
        (Some old, Some new) \<Rightarrow> deliver (UpdateEvent old new)
          (c\<lparr>objects := put_spec (Default (user_class DNSNone)) (objects c)\<rparr>)
      | _ \<Rightarrow> c)"

lemma change_policy_others: "others loyal k c (change_policy nn c)"
proof -
  have "user_step c (change_policy nn c)" if "find_class (key (user_class DNSNone)) (objects c) = Some old"
    "find_class (key (user_class DNSNone)) (put_spec (Default (user_class DNSNone)) (objects c)) = Some new" for old new
  proof -
    have v: "ValidateUpdate old (Default (user_class DNSNone)) = None"
      by (simp add: ValidateUpdate_def user_class_valid ValidDNSPolicies_def)
    from user_step.update [OF that(1) v that(2)] that show ?thesis by (simp add: change_policy_def)
  qed
  then show ?thesis
    by (cases "find_class (key (user_class DNSNone)) (objects c)";
        cases "find_class (key (user_class DNSNone)) (put_spec (Default (user_class DNSNone)) (objects c))")
      (auto simp: change_policy_def intro: other_step.user)
qed

interpretation disturbed: worker_api loyal k "loop_client change_policy" for loyal k
  by (rule loop_client_api) (rule change_policy_others)

definition created_loop :: "DNSPolicy_t \<Rightarrow> loop" where
  "created_loop p = \<lparr>objects = [stored_class p], queue = [key (stored_class p)], active = []\<rparr>"

lemma created_loop_step:
  assumes "p \<in> set ValidDNSPolicies"
  shows "user_step empty_loop (created_loop p)"
proof -
  have "user_step empty_loop (deliver (CreateEvent (stored_class p))
      (empty_loop\<lparr>objects := objects empty_loop @ [stored_class p]\<rparr>))"
    by (rule user_step.create [of "user_class p"])
      (simp_all add: ValidateCreate_def user_class_valid [OF assms] empty_loop_def find_class_def stored_class_def)
  then show ?thesis by (simp add: created_loop_def empty_loop_def deliver_def enqueue_def)
qed


section \<open>Emptying the queue\<close>

text \<open>A single worker on the first key.\<close>

definition work :: "loop Reconciler \<Rightarrow> loop \<Rightarrow> loop" where
  "work r c =
     (case queue c of
        [] \<Rightarrow> c
      | k # _ \<Rightarrow>
          (case Reconcile r k (start (take_key k c)) of
             Panic \<Rightarrow> c
           | Ret (err, s') \<Rightarrow> finish_key k (err \<noteq> None) (world s')))"









section \<open>What the loop promises\<close>

text \<open>
  C13. A worker's turn at a key, from taking it to giving it back, whatever users and the other
  workers of the loop do during the run and whichever calls of the API server fail, where a read
  that succeeds returns what is stored at that moment: the run is steps of the loop that write
  final statuses of that key only. When it returns an error, or its status update
  arrives (the error that is only logged is nil), the worker keeps the promise of the loop: the
  key is queued again, because of the error or by the event of a change, or the class is settled
  for the specification it has at that moment.
\<close>

theorem worker_turn_is_steps:
  assumes "worker_api True k r" and "k \<in> set (queue c)" and "k \<notin> set (active c)"
    and run: "Reconcile r k (start (take_key k c)) = Ret (err, s')"
  shows "loop_step\<^sup>*\<^sup>* (take_key k c) (world s') \<and> k \<in> set (active (world s')) \<and>
    (if err \<noteq> None \<or> logged_error r k (start (take_key k c)) = None
     then loop_step\<^sup>*\<^sup>* c (finish_key k (err \<noteq> None) (world s')) \<and>
       queued_or k settled (finish_key k (err \<noteq> None) (world s'))
     else loop_step\<^sup>*\<^sup>* c (world s'))"
proof -
  have "loop_step c (take_key k c)"
    by (rule loop_step.worker [OF worker_step.take_next [OF assms(2,3)]]) (simp add: keeps_promise_def)
  moreover note r = worker_api.run_loop_steps [OF assms(1) TrueI run]
  moreover have "queued_or k settled (finish_key k (err \<noteq> None) (world s'))"
    if "err \<noteq> None \<or> logged_error r k (start (take_key k c)) = None"
    using worker_api.run_settles [OF assms(1), of "take_key k c" s'] run that
    by (cases err) (auto simp: queued_or_def)
  ultimately show ?thesis
    using worker_api.worker_run [OF assms(1) TrueI assms(2-4)] by (auto intro: converse_rtranclp_into_rtranclp)
qed

lemma disturbed_run:
  "\<exists>s'. Reconcile (loop_client change_policy) (key (stored_class DNSClusterFirst))
       (start (take_key (key (stored_class DNSClusterFirst)) (created_loop DNSClusterFirst))) = Ret (None, s') \<and>
     world s' = \<lparr>objects = [ready_class\<lparr>dc_Spec := dc_Spec (Default (user_class DNSNone)), dc_Generation := 2\<rparr>],
       queue = [key (stored_class DNSClusterFirst)], active = [key (stored_class DNSClusterFirst)]\<rparr>"
  by (simp add: loop_client_def change_policy_def created_loop_def take_key_def deliver_def enqueue_def
      ready_class_def stored_class_eval sample_eval)

lemma disturbed_logged:
  "logged_error (loop_client change_policy) (key (stored_class DNSClusterFirst))
     (start (take_key (key (stored_class DNSClusterFirst)) (created_loop DNSClusterFirst))) = None"
  by (simp add: logged_error_def loop_client_def change_policy_def created_loop_def take_key_def deliver_def
      enqueue_def ready_class_def stored_class_eval sample_eval)

lemma created_loop_queue:
  "key (stored_class p) \<in> set (queue (created_loop p))" "key (stored_class p) \<notin> set (active (created_loop p))"
  by (simp_all add: created_loop_def)

theorem worker_turn_is_steps_witness:
  "\<exists>c. loop_step\<^sup>*\<^sup>* (created_loop DNSClusterFirst) c \<and> queue c = [key (stored_class DNSClusterFirst)] \<and>
     map (DNSPolicy \<circ> dc_Spec) (objects c) = [DNSNone]"
proof -
  let ?k = "key (stored_class DNSClusterFirst)"
  obtain s' where s: "Reconcile (loop_client change_policy) ?k (start (take_key ?k (created_loop DNSClusterFirst))) =
      Ret (None, s')"
    and w: "world s' = \<lparr>objects = [ready_class\<lparr>dc_Spec := dc_Spec (Default (user_class DNSNone)), dc_Generation := 2\<rparr>],
       queue = [?k], active = [?k]\<rparr>"
    using disturbed_run by blast
  have "DNSPolicy (dc_Spec (Default (user_class DNSNone))) = DNSNone"
    by (simp add: stored_class_eval policy_defs)
  then show ?thesis
    using worker_turn_is_steps [OF disturbed.worker_api_axioms created_loop_queue s] disturbed_logged w
    by (intro exI [of _ "finish_key ?k False (world s')"]) (simp add: finish_key_def)
qed

text \<open>
  The life of one key: users and the other workers, who need not keep the promise, the turns of
  workers at the key, each a run of \<open>Reconcile\<close> that returns an error or whose status update
  arrives, and restarts of the manager between them.
\<close>

inductive key_step :: "NamespacedName \<Rightarrow> loop \<Rightarrow> loop \<Rightarrow> bool" for k :: NamespacedName where
  other: "other_step False k c c' \<Longrightarrow> key_step k c c'"
| turn: "worker_api False k r \<Longrightarrow> k \<in> set (queue c) \<Longrightarrow> k \<notin> set (active c) \<Longrightarrow>
    Reconcile r k (start (take_key k c)) = Ret (err, s') \<Longrightarrow>
    err \<noteq> None \<or> logged_error r k (start (take_key k c)) = None \<Longrightarrow>
    key_step k c (finish_key k (err \<noteq> None) (world s'))"
| restarted: "key_step k c (restart c)"

lemma key_step_queued: "key_step k c c' \<Longrightarrow> queued_or k settled c \<Longrightarrow> queued_or k settled c'"
proof (induction rule: key_step.induct)
  case (other c c')
  then show ?case using queued_or_stable others_undisturbed [OF r_into_rtranclp] by blast
next
  case (turn r c err s')
  then show ?case
    using worker_api.run_settles [OF turn(1), of "take_key k c" s'] by (cases err) (auto simp: queued_or_def)
next
  case (restarted c)
  then show ?case by (auto simp: queued_or_def dest: find_class_SomeD)
qed

lemma key_steps_queued: "(key_step k)\<^sup>*\<^sup>* empty_loop c \<Longrightarrow> queued_or k settled c"
proof (induction rule: rtranclp_induct)
  case base
  show ?case by (simp add: queued_or_def empty_loop_def find_class_def)
qed (rule key_step_queued)

text \<open>
  C12. A class is settled or its key is queued whenever no worker has the key: this holds in every
  life of the key in which users change, delete and create classes at will, policies included,
  calls of the API server fail, the other workers do anything, and each run of \<open>Reconcile\<close> at the
  key returns an error or gets its status update through. So while such a class makes the pod
  webhook panic, the run that repairs it is queued. Without the last condition this fails: a run
  whose status update is refused leaves the class unsettled and not queued.
\<close>

theorem unsettled_is_queued:
  assumes "(key_step k)\<^sup>*\<^sup>* empty_loop c" and "find_class k (objects c) = Some dc"
  shows "(settled dc \<or> k \<in> set (queue c)) \<and>
    (Decode p req = Some pod \<and> getDNSClass p pod = (dc, None) \<and> Handle p req = Panic \<longrightarrow> k \<in> set (queue c))"
proof -
  have "queued_or k settled c" using assms(1) by (rule key_steps_queued)
  with assms(2) have q: "settled dc \<or> k \<in> set (queue c)" by (auto simp: queued_or_def)
  moreover have "Handle p req \<noteq> Panic" if "settled dc" "Decode p req = Some pod" "getDNSClass p pod = (dc, None)"
    using that Handle_found [OF that(2,3)]
    by (auto simp: settled_def discovered_if_ready_def obind_Panic_iff configure_panic_iff)
  ultimately show ?thesis by blast
qed

theorem unsettled_is_queued_witness:
  "\<exists>dc. State (dc_Status dc) = StateReady \<and> DNSPolicy (dc_Spec dc) = DNSNone \<and>
     Handle (sample_mutator [dc]) \<lparr>Object_Raw = []\<rparr> = Panic \<and>
     (key_step (key dc))\<^sup>*\<^sup>* empty_loop \<lparr>objects = [dc], queue = [key dc], active = []\<rparr> \<and> key dc \<in> set [key dc]"
proof -
  let ?k = "key (stored_class DNSClusterFirst)"
  let ?dc = "ready_class\<lparr>dc_Spec := dc_Spec (Default (user_class DNSNone)), dc_Generation := 2\<rparr>"
  let ?c = "\<lparr>objects = [?dc], queue = [?k], active = []\<rparr>"
  obtain s' where s: "Reconcile (loop_client change_policy) ?k (start (take_key ?k (created_loop DNSClusterFirst))) =
      Ret (None, s')"
    and w: "world s' = \<lparr>objects = [?dc], queue = [?k], active = [?k]\<rparr>"
    using disturbed_run by blast
  have k: "key ready_class = ?k" by (simp add: ready_class_def)
  have "key_step ?k (created_loop DNSClusterFirst) (finish_key ?k (None \<noteq> (None :: go_error option)) (world s'))"
    by (rule key_step.turn [OF disturbed.worker_api_axioms created_loop_queue s]) (simp add: disturbed_logged)
  then have "key_step ?k (created_loop DNSClusterFirst) ?c" by (simp add: w finish_key_def)
  moreover have "key_step ?k empty_loop (created_loop DNSClusterFirst)"
    by (intro key_step.other other_step.user created_loop_step) (simp add: ValidDNSPolicies_def)
  ultimately have r: "(key_step ?k)\<^sup>*\<^sup>* empty_loop ?c" by (meson converse_rtranclp_into_rtranclp rtranclp.rtrancl_refl)
  have p: "Handle (sample_mutator [?dc]) \<lparr>Object_Raw = []\<rparr> = Panic"
    by (simp add: Handle_def sample_mutator_def getDNSClass_def sample_pod_def ready_class_def
        stored_class_eval configureDNSForPod_def empty_DNSClass_def empty_DNSClassSpec_def
        DefaultDNSPolicies_def policy_defs)
  have f: "find_class ?k (objects ?c) = Some ?dc" by (simp add: find_class_def k)
  have "settled ?dc \<or> ?k \<in> set (queue ?c)" using unsettled_is_queued [OF r f] by blast
  moreover have "State (dc_Status ?dc) = StateReady" "DNSPolicy (dc_Spec ?dc) = DNSNone"
    by (simp_all add: ready_class_def stored_class_eval policy_defs)
  ultimately show ?thesis using r p by (intro exI [of _ ?dc]) (simp add: k)
qed



text \<open>
  The condition on the status updates is needed. This API server keeps the laws of \<open>worker_api\<close> and
  refuses one: \<open>Reconcile\<close> returns no error, the key is not queued again, and the class stays
  without a state although nothing will look at it again.
\<close>

definition failing_client :: "loop Reconciler" where
  "failing_client = (loop_client (\<lambda>_ c. c))
     \<lparr>client_StatusUpdate := (\<lambda>dc c. (Some (OtherError ''timeout''), c))\<rparr>"

interpretation failing: worker_api loyal k failing_client for loyal k
proof -
  have q: "client_Get failing_client = client_Get (loop_client (\<lambda>_ c. c))"
    "client_ListNodes failing_client = client_ListNodes (loop_client (\<lambda>_ c. c))"
    "rest_GetRaw failing_client = rest_GetRaw (loop_client (\<lambda>_ c. c))"
    "time_Now failing_client = time_Now (loop_client (\<lambda>_ c. c))"
    "retry_contract failing_client = retry_contract (loop_client (\<lambda>_ c. c))"
    by (simp_all add: failing_client_def retry_contract_def)
  show "worker_api loyal k failing_client"
    by (unfold_locales; (unfold q)?; (rule quiet.retry quiet.ListNodes quiet.GetRaw quiet.Now)?)
      (use quiet.Get in blast, fastforce simp: failing_client_def)
qed

theorem lost_status_update:
  "work failing_client (created_loop DNSClusterFirst) =
     \<lparr>objects = [stored_class DNSClusterFirst], queue = [], active = []\<rparr> \<and>
   \<not> settled (stored_class DNSClusterFirst) \<and>
   logged_error failing_client (key (stored_class DNSClusterFirst))
     (start (take_key (key (stored_class DNSClusterFirst)) (created_loop DNSClusterFirst))) =
       Some ''update status: timeout''"
proof -
  let ?k = "key (stored_class DNSClusterFirst)"
  have "\<exists>s'. Reconcile failing_client ?k (start (take_key ?k (created_loop DNSClusterFirst))) = Ret (None, s') \<and>
      world s' = \<lparr>objects = [stored_class DNSClusterFirst], queue = [], active = [?k]\<rparr>"
    by (simp add: failing_client_def loop_client_def created_loop_def take_key_def stored_class_eval sample_eval)
  then obtain s' where "Reconcile failing_client ?k (start (take_key ?k (created_loop DNSClusterFirst))) = Ret (None, s')"
    "world s' = \<lparr>objects = [stored_class DNSClusterFirst], queue = [], active = [?k]\<rparr>" by blast
  then have "work failing_client (created_loop DNSClusterFirst) =
      \<lparr>objects = [stored_class DNSClusterFirst], queue = [], active = []\<rparr>"
    by (simp add: work_def) (simp add: created_loop_def finish_key_def)
  moreover have "\<not> settled (stored_class DNSClusterFirst)"
    by (simp add: settled_def stored_class_def empty_DNSClassStatus_def StateReady_def)
  moreover have "logged_error failing_client ?k (start (take_key ?k (created_loop DNSClusterFirst))) =
      Some ''update status: timeout''"
    by (simp add: logged_error_def failing_client_def loop_client_def created_loop_def take_key_def
        stored_class_eval sample_eval api_text_def)
  ultimately show ?thesis by blast
qed

end
