(* ===== verification/Racing_Update.thy ===== *)
theory Racing_Update
  imports System
begin

text \<open>
  The reconciler on an API server with resource versions: every write gives the stored object a new
  version, and a status update that carries another version than the stored one is refused with a
  conflict. Users update classes between the reads of a run. The write of the status reads the
  object again, so that the version it sends is current and the status that was computed for the
  older specification is accepted.
\<close>

section \<open>An API server with versions\<close>

text \<open>The version of a stored object changes with every write; nothing else is said of it.\<close>

definition next_version :: "string \<Rightarrow> string" where
  "next_version v = CHR ''1'' # v"

definition server_write :: "NamespacedName \<Rightarrow> (DNSClass \<Rightarrow> DNSClass) \<Rightarrow> cluster \<Rightarrow> cluster" where
  "server_write nn f cs =
     map (\<lambda>d. if key d = nn then (f d)\<lparr>dc_ResourceVersion := next_version (dc_ResourceVersion d)\<rparr> else d) cs"

definition server_StatusUpdate :: "DNSClass \<Rightarrow> cluster \<Rightarrow> api_error option \<times> cluster" where
  "server_StatusUpdate dc cs =
     (case find_class (key dc) cs of
        None \<Rightarrow> (Some (NotFound ''not found''), cs)
      | Some d \<Rightarrow>
          (if dc_ResourceVersion dc \<noteq> dc_ResourceVersion d
           then (Some (Conflict ''the object has been modified''), cs)
           else (None, server_write (key dc) (\<lambda>d. d\<lparr>dc_Status := dc_Status dc\<rparr>) cs)))"

text \<open>An update by a user, which the class webhooks may refuse.\<close>

definition user_update :: "DNSClass \<Rightarrow> cluster \<Rightarrow> cluster" where
  "user_update obj cs =
     (case find_class (key obj) cs of
        None \<Rightarrow> cs
      | Some old \<Rightarrow>
          (if ValidateUpdate old (Default obj) = None
           then server_write (key obj) (\<lambda>d. d\<lparr>dc_Spec := dc_Spec (Default obj),
             dc_Generation := (if dc_Spec (Default obj) = dc_Spec d then dc_Generation d else dc_Generation d + 1)\<rparr>) cs
           else cs))"

text \<open>Without the versions the server does what the cluster does.\<close>

definition unversioned :: "DNSClass \<Rightarrow> DNSClass" where
  "unversioned d = d\<lparr>dc_ResourceVersion := []\<rparr>"

lemma next_version_neq [simp]: "next_version v \<noteq> v" "v \<noteq> next_version v"
  by (simp_all add: next_version_def)

lemma key_version [simp]: "key (d\<lparr>dc_ResourceVersion := v\<rparr>) = key d"
  by (simp add: key_def)

lemma find_server_write:
  assumes "\<And>d. key (f d) = key d"
  shows "find_class k (server_write nn f cs) =
    (if k = nn then map_option (\<lambda>d. (f d)\<lparr>dc_ResourceVersion := next_version (dc_ResourceVersion d)\<rparr>) (find_class k cs)
     else find_class k cs)"
  by (induction cs) (auto simp: find_class_def server_write_def assms)

lemma server_StatusUpdate_cluster:
  assumes "server_StatusUpdate dc cs = (None, cs')"
  shows "map unversioned cs' = put_status dc (map unversioned cs)"
  using assms
  by (auto simp: server_StatusUpdate_def server_write_def put_status_def unversioned_def key_def
      split: option.splits if_splits)

lemma user_update_cluster:
  assumes "find_class (key obj) cs = Some old" and "ValidateUpdate old (Default obj) = None"
  shows "map unversioned (user_update obj cs) = put_spec (Default obj) (map unversioned cs)"
proof -
  have "key (unversioned d) = key d" for d by (simp add: unversioned_def)
  then show ?thesis
    using assms by (simp add: user_update_def server_write_def put_spec_def) (auto simp: unversioned_def)
qed

section \<open>The reconciler on this server\<close>

text \<open>
  A reconciler whose reads and status updates go to the server. The world holds the stored classes
  and the updates that users still make: after each read the next group of them takes effect.
\<close>

type_synonym race = "cluster \<times> DNSClass list list"

definition racing :: "race Reconciler \<Rightarrow> race Reconciler" where
  "racing r = r
     \<lparr>client_Get := (\<lambda>nn (cs, uss).
        (case find_class nn cs of None \<Rightarrow> Inl (NotFound ''not found'') | Some dc \<Rightarrow> Inr dc,
         case uss of [] \<Rightarrow> (cs, []) | us # uss \<Rightarrow> (fold user_update us cs, uss))),
      client_StatusUpdate := (\<lambda>dc (cs, uss).
        case server_StatusUpdate dc cs of (res, cs) \<Rightarrow> (res, (cs, uss)))\<rparr>"

lemma racing_simps [simp]:
  "client_Get (racing r) nn (cs, uss) =
     (case find_class nn cs of None \<Rightarrow> Inl (NotFound ''not found'') | Some dc \<Rightarrow> Inr dc,
      case uss of [] \<Rightarrow> (cs, []) | us # uss \<Rightarrow> (fold user_update us cs, uss))"
  "client_StatusUpdate (racing r) dc (cs, uss) =
     (fst (server_StatusUpdate dc cs), (snd (server_StatusUpdate dc cs), uss))"
  "time_Now (racing r) = time_Now r" "RetryOnConflict (racing r) = RetryOnConflict r"
  by (simp_all add: racing_def split: prod.split)

lemma attempts_first: "f s = (None, s') \<Longrightarrow> attempts n f s = (None, s')"
  by (cases n) simp_all

text \<open>
  A write that nobody disturbs after its own read is accepted: it sends the version it has just
  read, whatever version the run had read before.
\<close>

lemma racing_writeStatus:
  assumes "retry_contract r" and "find_class (key dc) cs = Some d" and "world s = (cs, [])"
  shows "\<exists>s'. writeStatus (racing r) dc s = (None, s') \<and>
    world s' = (server_write (key dc) (\<lambda>d. d\<lparr>dc_Status := dc_Status dc\<rparr>) cs, [])"
proof -
  let ?x = "d\<lparr>dc_Status := dc_Status dc\<rparr>"
  have k: "key d = key dc" using find_class_SomeD [OF assms(2)] by simp
  have "server_StatusUpdate ?x cs = (None, server_write (key dc) (\<lambda>d. d\<lparr>dc_Status := dc_Status dc\<rparr>) cs)"
    using assms(2) by (simp add: server_StatusUpdate_def k)
  then obtain s' where w: "write_attempt (racing r) dc s = (None, s')"
    and s': "world s' = (server_write (key dc) (\<lambda>d. d\<lparr>dc_Status := dc_Status dc\<rparr>) cs, [])"
    using assms(2,3) by (simp add: write_attempt_def call_def Let_def key_def [symmetric])
  obtain n where "RetryOnConflict r (write_attempt (racing r) dc) s = attempts n (write_attempt (racing r) dc) s"
    using assms(1) unfolding retry_contract_def by blast
  then have "writeStatus (racing r) dc s = (None, s')"
    by (simp add: writeStatus_def attempts_first [where f = "write_attempt (racing r) dc", OF w])
  with s' show ?thesis by blast
qed

lemma racing_updateStatus:
  assumes "retry_contract r" and "\<forall>w. snd (time_Now r w) = w"
    and "find_class (key dc) cs = Some d" and "world s = (cs, [])" and "State (dc_Status dc) = StateReady"
  shows "\<exists>s' st. updateStatus (racing r) None msg dc s = (None, s') \<and>
    world s' = (server_write (key dc) (\<lambda>d. d\<lparr>dc_Status := st\<rparr>) cs, []) \<and>
    State st = StateReady \<and> st_DiscoveredFields st = st_DiscoveredFields (dc_Status dc)"
proof -
  have now: "world s2 = world s1" if "now (racing r) s1 = (t, s2)" for s1 s2 t
    using that assms(2) [rule_format, of "world s1"]
    by (cases "time_Now r (world s1)") (auto simp: now_def)
  obtain t1 s1 where n1: "now (racing r) s = (t1, s1)" by fastforce
  obtain t2 s2 where n2: "now (racing r) s1 = (t2, s2)" by fastforce
  let ?w = "set_condition (racing r) (mk_condition StateReady ConditionTrue msg ''ReconcileCompleted'' t2) dc"
  have u: "updateStatus (racing r) None msg dc s = writeStatus (racing r) ?w s2"
    using assms(5) n1 n2 by (simp add: updateStatus_def Let_def)
  have "world s2 = (cs, [])" using now [OF n1] now [OF n2] assms(4) by simp
  moreover have w: "key ?w = key dc" "State (dc_Status ?w) = StateReady"
    "st_DiscoveredFields (dc_Status ?w) = st_DiscoveredFields (dc_Status dc)"
    using assms(5) by (simp_all add: set_condition_def)
  ultimately obtain s' where "writeStatus (racing r) ?w s2 = (None, s')"
    "world s' = (server_write (key dc) (\<lambda>d. d\<lparr>dc_Status := dc_Status ?w\<rparr>) cs, [])"
    using racing_writeStatus [OF assms(1), of ?w cs d s2] assms(3) unfolding w(1) by blast
  with w(2,3) show ?thesis unfolding u by (intro exI [of _ s'] exI [of _ "dc_Status ?w"] conjI)
qed

text \<open>
  C32. Let a class with another policy than \<open>None\<close> and without discovered fields be stored, and
  let an accepted update change its policy to \<open>None\<close> after a run has read the class and before it
  writes the status. The server would refuse any status update that carries the version the run
  has read; but the write reads the class again, no error is returned, and the class is stored
  with its new specification, the state \<open>ready\<close> and no discovered fields. The webhook then panics
  on every pod for which the class is chosen.
\<close>

theorem racing_update_stored_ready:
  assumes "retry_contract r" and "\<forall>w. snd (time_Now r w) = w"
    and stored: "find_class k cs = Some dc" and "DNSPolicy (dc_Spec dc) \<noteq> DNSNone"
    and "st_DiscoveredFields (dc_Status dc) = None"
    and obj: "key obj = k" "ValidateUpdate dc (Default obj) = None"
    and "DNSPolicy (dc_Spec (Default obj)) = DNSNone"
  shows "(\<forall>w. key w = k \<and> dc_ResourceVersion w = dc_ResourceVersion dc \<longrightarrow>
      server_StatusUpdate w (user_update obj cs) =
        (Some (Conflict ''the object has been modified''), user_update obj cs)) \<and>
    (\<exists>s' new. Reconcile (racing r) k (start (cs, [[obj]])) = Ret (None, s') \<and>
      find_class k (fst (world s')) = Some new \<and> dc_Spec new = dc_Spec (Default obj) \<and>
      State (dc_Status new) = StateReady \<and> st_DiscoveredFields (dc_Status new) = None \<and>
      (\<forall>p req pod. Decode p req = Some pod \<and> getDNSClass p pod = (new, None) \<longrightarrow> Handle p req = Panic))"
proof -
  let ?cs = "user_update obj cs"
  obtain d where d: "find_class k ?cs = Some d" "dc_Spec d = dc_Spec (Default obj)"
    "dc_ResourceVersion d = next_version (dc_ResourceVersion dc)"
    using stored obj by (simp add: user_update_def find_server_write)
  have refused: "server_StatusUpdate w ?cs = (Some (Conflict ''the object has been modified''), ?cs)"
    if "key w = k" "dc_ResourceVersion w = dc_ResourceVersion dc" for w
    using d that by (simp add: server_StatusUpdate_def)
  define dc1 where "dc1 = set_state StateReady
    (if State (dc_Status dc) = [] then set_state StateInit dc else dc)"
  have dc1: "key dc1 = k" "State (dc_Status dc1) = StateReady" "st_DiscoveredFields (dc_Status dc1) = None"
    using find_class_SomeD [OF stored] assms(5) by (simp_all add: dc1_def set_state_def)
  define s1 where "s1 = Eventf ''Normal'' ''Successful'' ''StopReconciling'' ''Reconciliation successfully completed''
    (Eventf ''Normal'' ''Reconciling'' ''StartReconciling'' ''Reconciliation started''
      \<lparr>world = (?cs, [] :: DNSClass list list), trace = [DidGet k]\<rparr>)"
  have run: "Reconcile (racing r) k (start (cs, [[obj]])) =
      (case updateStatus (racing r) None ''Ready'' dc1 s1 of (logged, s) \<Rightarrow> Ret (None, s))"
    using stored assms(4)
    by (simp add: Reconcile_def call_def start_def reconcile_body_def dc1_def set_state_def s1_def)
  have "world s1 = (?cs, [])" by (simp add: s1_def Eventf_def)
  from racing_updateStatus [OF assms(1,2) _ this dc1(2), of d "''Ready''"] d(1) dc1(1,3)
  obtain s' st where u: "updateStatus (racing r) None ''Ready'' dc1 s1 = (None, s')"
    and s': "world s' = (server_write k (\<lambda>d. d\<lparr>dc_Status := st\<rparr>) ?cs, [])"
    and st: "State st = StateReady" "st_DiscoveredFields st = None" by auto
  let ?new = "d\<lparr>dc_Status := st, dc_ResourceVersion := next_version (dc_ResourceVersion d)\<rparr>"
  have "find_class k (fst (world s')) = Some ?new" using d(1) by (simp add: s' find_server_write)
  moreover have "Handle p req = Panic" if "Decode p req = Some pod" "getDNSClass p pod = (?new, None)" for p req and pod :: "'p Pod"
  proof -
    have "DNSPolicy (dc_Spec d) = DNSNone" using d(2) assms(8) by (simp only:)
    then have "configureDNSForPod (text_template p) pod ?new = Panic"
      using st by (simp add: configure_panic_iff)
    then show ?thesis using st Handle_found [OF that] by (simp add: obind_Panic_iff)
  qed
  ultimately show ?thesis
    using run u refused d(2) st by (intro conjI allI impI exI [of _ s'] exI [of _ ?new]) auto
qed

text \<open>A reconciler for this world, whose reads and updates \<open>racing\<close> replaces.\<close>

definition race_base :: "race Reconciler" where
  "race_base =
     \<lparr>client_Get = (\<lambda>nn w. (Inl (OtherError []), w)), client_StatusUpdate = (\<lambda>dc w. (None, w)),
      client_ListNodes = (\<lambda>w. (Inr [''node''], w)),
      Config = \<lparr>GroupVersion = None, NegotiatedSerializer = None, rest_Other = []\<rparr>,
      RESTClientFor = (\<lambda>_. None),
      rest_GetRaw = (\<lambda>_ _ w. (Inr [], w)),
      json_Unmarshal = (\<lambda>_. kubelet_sample),
      time_Now = (\<lambda>w. (0, w)),
      SetStatusCondition = store_condition,
      RetryOnConflict = attempts 4\<rparr>"

theorem racing_update_stored_ready_witness:
  "\<exists>s' new. Reconcile (racing race_base) (key (stored_class DNSClusterFirst))
      (start ([stored_class DNSClusterFirst], [[user_class DNSNone]])) = Ret (None, s') \<and>
    find_class (key (stored_class DNSClusterFirst)) (fst (world s')) = Some new \<and>
    DNSPolicy (dc_Spec new) = DNSNone \<and> State (dc_Status new) = StateReady \<and>
    st_DiscoveredFields (dc_Status new) = None"
proof -
  have p: "DNSPolicy (dc_Spec (Default (user_class DNSNone))) = DNSNone"
    "DNSPolicy (dc_Spec (stored_class DNSClusterFirst)) \<noteq> DNSNone"
    by (simp_all add: stored_class_eval policy_defs)
  have r: "retry_contract race_base" "\<forall>w. snd (time_Now race_base w) = w"
    by (auto simp: retry_contract_def race_base_def)
  have f: "find_class (key (stored_class DNSClusterFirst)) [stored_class DNSClusterFirst] =
      Some (stored_class DNSClusterFirst)" "st_DiscoveredFields (dc_Status (stored_class DNSClusterFirst)) = None"
    by (simp_all add: find_class_def stored_class_def empty_DNSClassStatus_def)
  have o: "key (user_class DNSNone) = key (stored_class DNSClusterFirst)"
    "ValidateUpdate (stored_class DNSClusterFirst) (Default (user_class DNSNone)) = None"
    by (simp_all add: stored_class_def user_class_def ValidateUpdate_def key_def)
      (simp add: user_class_valid [unfolded user_class_def] ValidDNSPolicies_def)
  from racing_update_stored_ready [OF r f(1) p(2) f(2) o p(1)] p(1) show ?thesis by metis
qed

end
