(* ===== verification/Loadgen_Wire.thy ===== *)
theory Loadgen_Wire
  imports Prelude "HOL-Library.Word"
begin

text \<open>
  The DNS message reader of \<open>docs/dns-demo/loadgen/main.go\<close>: names with compression pointers,
  the question of a message, type and response code names. A packet is a list of bytes; an index
  or a slice outside it panics, as in Go, so that the absence of panics is a theorem. Go strings
  hold bytes: the character of a byte is the one with its code.
\<close>

unbundle bit_operations_syntax

type_synonym byte = "8 word"
type_synonym packet = "byte list"

definition byte_char :: "byte \<Rightarrow> char" where
  "byte_char b = char_of (unat b)"

definition bytes_string :: "byte list \<Rightarrow> string" where
  "bytes_string bs = map byte_char bs"

text \<open>\<open>packet[i]\<close> and \<open>packet[lo:hi]\<close>.\<close>

definition index_byte :: "packet \<Rightarrow> nat \<Rightarrow> byte outcome" where
  "index_byte p i = (if i < length p then Ret (p ! i) else Panic)"

definition slice_bytes :: "packet \<Rightarrow> nat \<Rightarrow> nat \<Rightarrow> packet outcome" where
  "slice_bytes p lo hi = (if lo \<le> hi \<and> hi \<le> length p then Ret (take (hi - lo) (drop lo p)) else Panic)"

text \<open>\<open>binary.BigEndian.Uint16\<close> reads the first two bytes.\<close>

definition BigEndian_Uint16 :: "packet \<Rightarrow> 16 word outcome" where
  "BigEndian_Uint16 b =
     (case b of
        hi # lo # rest \<Rightarrow> Ret (push_bit 8 (ucast hi) OR ucast lo)
      | _ \<Rightarrow> Panic)"

section \<open>The code\<close>

definition dnsTypeName :: "16 word \<Rightarrow> string" where
  "dnsTypeName qtype =
     (if qtype = 1 then ''A'' else if qtype = 28 then ''AAAA'' else FormatUint (unat qtype))"

definition dnsRCodeName :: "16 word \<Rightarrow> string" where
  "dnsRCodeName rcode =
     (if rcode = 0 then ''NOERROR'' else if rcode = 1 then ''FORMERR''
      else if rcode = 2 then ''SERVFAIL'' else if rcode = 3 then ''NXDOMAIN''
      else if rcode = 5 then ''REFUSED'' else FormatUint (unat rcode))"

text \<open>
  The loop of \<open>decodeDNSName\<close>, with the iterations left. The result is None for \<open>"", 0, false\<close>.
\<close>

fun decode_loop ::
  "nat \<Rightarrow> packet \<Rightarrow> string list \<Rightarrow> nat \<Rightarrow> nat \<Rightarrow> bool \<Rightarrow> (string \<times> nat) option outcome" where
  "decode_loop 0 packet labels offset next_off jumped = Ret None"
| "decode_loop (Suc n) packet labels offset next_off jumped =
     (if offset \<ge> length packet then Ret None
      else obind (index_byte packet offset) (\<lambda>b.
        let len = unat b in
        if len = 0 then
          (let next_off = (if \<not> jumped then offset + 1 else next_off)
           in Ret (Some (strings_Join labels ''.'' @ ''.'', next_off)))
        else if len AND 0xC0 = 0xC0 then
          (if offset + 1 \<ge> length packet then Ret None
           else
             (let next_off = (if \<not> jumped then offset + 2 else next_off)
              in obind (index_byte packet (offset + 1)) (\<lambda>low.
                   decode_loop n packet labels (push_bit 8 (len AND 0x3F) OR unat low) next_off True)))
        else if len AND 0xC0 \<noteq> 0 \<or> offset + 1 + len > length packet then Ret None
        else obind (slice_bytes packet (offset + 1) (offset + 1 + len)) (\<lambda>label.
          let offset = offset + (1 + len);
              next_off = (if \<not> jumped then offset else next_off)
          in decode_loop n packet (labels @ [bytes_string label]) offset next_off jumped)))"

definition decodeDNSName :: "packet \<Rightarrow> nat \<Rightarrow> (string \<times> nat) option outcome" where
  "decodeDNSName packet start = decode_loop 128 packet [] start start False"

record dnsMessage =
  msg_name :: string
  msg_qtype :: string
  msg_response :: bool
  msg_rcode :: string

text \<open>The part of \<open>parseDNSMessage\<close> after the TCP length prefix.\<close>

definition parse_question :: "packet \<Rightarrow> dnsMessage option outcome" where
  "parse_question packet =
     (if length packet < 12 then Ret None
      else obind (slice_bytes packet 4 6) (\<lambda>b. obind (BigEndian_Uint16 b) (\<lambda>qdcount.
        if qdcount = 0 then Ret None
        else obind (decodeDNSName packet 12) (\<lambda>res.
          case res of
            None \<Rightarrow> Ret None
          | Some (nm, offset) \<Rightarrow>
              (if offset + 4 > length packet then Ret None
               else obind (slice_bytes packet 2 4) (\<lambda>b. obind (BigEndian_Uint16 b) (\<lambda>flags.
                 obind (slice_bytes packet offset (offset + 2)) (\<lambda>b. obind (BigEndian_Uint16 b) (\<lambda>qtype.
                   Ret (Some \<lparr>msg_name = nm, msg_qtype = dnsTypeName qtype,
                     msg_response = (flags AND 0x8000 \<noteq> 0),
                     msg_rcode = dnsRCodeName (flags AND 0x000F)\<rparr>))))))))))"

definition parseDNSMessage :: "packet \<Rightarrow> bool \<Rightarrow> dnsMessage option outcome" where
  "parseDNSMessage packet tcpFramed =
     (if tcpFramed then
        (if length packet < 2 then Ret None
         else obind (slice_bytes packet 0 2) (\<lambda>b. obind (BigEndian_Uint16 b) (\<lambda>prefix.
           let messageLength = unat prefix in
           if messageLength > length packet - 2 then Ret None
           else obind (slice_bytes packet 2 (2 + messageLength)) parse_question)))
      else parse_question packet)"

section \<open>Bytes and bits\<close>

lemma byte_less: "unat (b :: byte) < 256"
  using unsigned_less [of b] by simp

lemma and_63: "x AND (63 :: nat) = x mod 64"
proof -
  have "(63 :: nat) = mask 6" by (simp add: mask_eq_exp_minus_1)
  then have "x AND 63 = take_bit 6 x" by (simp only: take_bit_eq_mask)
  then show ?thesis by (simp add: take_bit_eq_mod)
qed

lemma and_192: "(x :: nat) AND 192 = 64 * (x div 64 mod 4)"
proof -
  have "(192 :: nat) = push_bit 6 (mask 2)" by (simp add: mask_eq_exp_minus_1 push_bit_eq_mult)
  moreover have "x AND push_bit 6 (mask 2) = push_bit 6 (take_bit 2 (drop_bit 6 x))"
    by (rule bit_eqI) (auto simp: bit_simps)
  ultimately have "x AND 192 = push_bit 6 (take_bit 2 (drop_bit 6 x))" by (simp only:)
  then show ?thesis by (simp add: push_bit_eq_mult drop_bit_eq_div take_bit_eq_mod)
qed

text \<open>The two tag bits of a length byte: 11 for a pointer, 00 for a label.\<close>

lemma tag_bits:
  "unat (b :: byte) AND 192 = 192 \<longleftrightarrow> 192 \<le> unat b"
  "unat (b :: byte) AND 192 = 0 \<longleftrightarrow> unat b < 64"
proof -
  have "unat b div 64 < 4" using byte_less [of b] by linarith
  then show "unat b AND 192 = 192 \<longleftrightarrow> 192 \<le> unat b" "unat b AND 192 = 0 \<longleftrightarrow> unat b < 64"
    unfolding and_192 by auto
qed

lemma pointer_value:
  "push_bit 8 (unat (b :: byte) AND 63) OR unat (low :: byte) = 256 * (unat b mod 64) + unat low"
proof -
  have "take_bit 8 (unat low) = unat low"
    using byte_less [of low] by (simp add: take_bit_nat_eq_self_iff)
  then have "\<not> bit (unat low) n" if "8 \<le> n" for n
    using that by (metis bit_take_bit_iff not_le)
  then have "push_bit 8 (unat b mod 64) + unat low = push_bit 8 (unat b mod 64) OR unat low"
    by (intro disjunctive_add) (auto simp: bit_simps)
  then show ?thesis by (simp add: and_63 push_bit_eq_mult)
qed

lemma BigEndian_two [simp]: "BigEndian_Uint16 (hi # lo # rest) = Ret (push_bit 8 (ucast hi) OR ucast lo)"
  by (simp add: BigEndian_Uint16_def)

lemma slice_two:
  "lo + 2 \<le> length p \<Longrightarrow> slice_bytes p lo (lo + 2) = Ret [p ! lo, p ! (lo + 1)]"
  by (simp add: slice_bytes_def take_Suc_conv_app_nth numeral_2_eq_2 hd_drop_conv_nth
      Cons_nth_drop_Suc [symmetric])

section \<open>Names in a packet\<close>

text \<open>
  The names a packet holds, independently of the loop: \<open>name_at p off ls k nx\<close> says that the name
  at \<open>off\<close> has the labels \<open>ls\<close>, is read in \<open>k\<close> labels and pointers before its final zero, and
  that its representation at \<open>off\<close> itself ends before \<open>nx\<close>.
\<close>

inductive name_at :: "packet \<Rightarrow> nat \<Rightarrow> string list \<Rightarrow> nat \<Rightarrow> nat \<Rightarrow> bool" for p :: packet where
  root: "off < length p \<Longrightarrow> unat (p ! off) = 0 \<Longrightarrow> name_at p off [] 0 (off + 1)"
| label: "off < length p \<Longrightarrow> unat (p ! off) = len \<Longrightarrow> 0 < len \<Longrightarrow> len < 64 \<Longrightarrow> off + 1 + len \<le> length p \<Longrightarrow>
    name_at p (off + 1 + len) ls k nx \<Longrightarrow>
    name_at p off (bytes_string (take len (drop (off + 1) p)) # ls) (Suc k) nx"
| pointer: "off + 1 < length p \<Longrightarrow> 192 \<le> unat (p ! off) \<Longrightarrow>
    name_at p (256 * (unat (p ! off) mod 64) + unat (p ! (off + 1))) ls k nx \<Longrightarrow>
    name_at p off ls (Suc k) (off + 2)"

text \<open>One iteration, with the checks on the tag bits resolved.\<close>

lemma decode_step:
  "decode_loop (Suc n) p labels off nxt j =
     (if length p \<le> off then Ret None
      else if unat (p ! off) = 0 then
        Ret (Some (strings_Join labels ''.'' @ ''.'', if j then nxt else off + 1))
      else if 192 \<le> unat (p ! off) then
        (if length p \<le> off + 1 then Ret None
         else decode_loop n p labels (256 * (unat (p ! off) mod 64) + unat (p ! (off + 1)))
           (if j then nxt else off + 2) True)
      else if 64 \<le> unat (p ! off) \<or> length p < off + 1 + unat (p ! off) then Ret None
      else decode_loop n p (labels @ [bytes_string (take (unat (p ! off)) (drop (off + 1) p))])
        (off + 1 + unat (p ! off)) (if j then nxt else off + 1 + unat (p ! off)) j)"
  by (simp add: index_byte_def slice_bytes_def Let_def tag_bits pointer_value not_le del: push_bit_and)

declare decode_loop.simps(2) [simp del]

lemma decode_no_panic [simp]: "decode_loop n p labels off nxt j \<noteq> Panic"
  by (induction n arbitrary: labels off nxt j) (simp_all add: decode_step)

lemma decode_sound:
  "decode_loop n p labels off nxt j = Ret (Some (nm, nx)) \<Longrightarrow>
     \<exists>ls k nx'. k < n \<and> name_at p off ls k nx' \<and> nm = strings_Join (labels @ ls) ''.'' @ ''.'' \<and>
       nx = (if j then nxt else nx')"
proof (induction n arbitrary: labels off nxt j)
  case 0
  then show ?case by simp
next
  case (Suc n)
  let ?len = "unat (p ! off)" and ?ptr = "256 * (unat (p ! off) mod 64) + unat (p ! (off + 1))"
  let ?label = "bytes_string (take (unat (p ! off)) (drop (off + 1) p))"
  from Suc.prems have off: "off < length p" by (simp add: decode_step split: if_splits)
  consider (zero) "?len = 0" | (ptr) "192 \<le> ?len" "off + 1 < length p"
    | (lab) "0 < ?len" "?len < 64" "off + 1 + ?len \<le> length p"
    using Suc.prems by (auto simp: decode_step split: if_splits)
  then show ?case
  proof cases
    case zero
    with Suc.prems off have "nm = strings_Join (labels @ []) ''.'' @ ''.''"
      "nx = (if j then nxt else off + 1)" by (simp_all add: decode_step)
    with name_at.root [OF off zero] show ?thesis by blast
  next
    case ptr
    with Suc.prems off have "decode_loop n p labels ?ptr (if j then nxt else off + 2) True = Ret (Some (nm, nx))"
      by (simp add: decode_step)
    from Suc.IH [OF this] obtain ls k nx' where "k < n" "name_at p ?ptr ls k nx'"
      "nm = strings_Join (labels @ ls) ''.'' @ ''.''" "nx = (if j then nxt else off + 2)" by auto
    with name_at.pointer [OF ptr(2,1)] show ?thesis by blast
  next
    case lab
    with Suc.prems off have "decode_loop n p (labels @ [?label]) (off + 1 + ?len)
        (if j then nxt else off + 1 + ?len) j = Ret (Some (nm, nx))"
      by (simp add: decode_step)
    from Suc.IH [OF this] obtain ls k nx' where "k < n" "name_at p (off + 1 + ?len) ls k nx'"
      "nm = strings_Join (labels @ ?label # ls) ''.'' @ ''.''" "nx = (if j then nxt else nx')" by auto
    with name_at.label [OF off refl lab] show ?thesis by blast
  qed
qed

lemma decode_complete:
  "name_at p off ls k nx \<Longrightarrow> k < n \<Longrightarrow>
     decode_loop n p labels off nxt j =
       Ret (Some (strings_Join (labels @ ls) ''.'' @ ''.'', if j then nxt else nx))"
proof (induction off ls k nx arbitrary: n labels nxt j rule: name_at.induct)
  case (root off)
  then show ?case by (cases n) (simp_all add: decode_step)
next
  case (label off len ls k nx)
  then show ?case by (cases n) (simp_all add: decode_step)
next
  case (pointer off ls k nx)
  then show ?case by (cases n) (simp_all add: decode_step)
qed

lemma decode_eq:
  "decodeDNSName p start = Ret (Some (nm, nx)) \<longleftrightarrow>
     (\<exists>ls k. k < 128 \<and> name_at p start ls k nx \<and> nm = strings_Join ls ''.'' @ ''.'')"
proof
  assume "decodeDNSName p start = Ret (Some (nm, nx))"
  from decode_sound [OF this [unfolded decodeDNSName_def]]
  show "\<exists>ls k. k < 128 \<and> name_at p start ls k nx \<and> nm = strings_Join ls ''.'' @ ''.''" by auto
next
  assume "\<exists>ls k. k < 128 \<and> name_at p start ls k nx \<and> nm = strings_Join ls ''.'' @ ''.''"
  then obtain ls k where "k < 128" "name_at p start ls k nx" "nm = strings_Join ls ''.'' @ ''.''" by blast
  with decode_complete [OF this(2,1), of "[]" start False] show "decodeDNSName p start = Ret (Some (nm, nx))"
    unfolding decodeDNSName_def by (simp del: decode_loop.simps)
qed

text \<open>
  C4. The name reader against the wire format: it returns a name and the offset after it exactly
  when the packet holds that name at the start offset with fewer than 128 labels and compression
  pointers on the way; pointers may go anywhere, a cycle of pointers is no name.
\<close>

theorem decodeDNSName_iff:
  "decodeDNSName p start = Ret (Some (nm, nx)) \<longleftrightarrow>
     (\<exists>ls k. k < 128 \<and> name_at p start ls k nx \<and> nm = strings_Join ls ''.'' @ ''.'')"
  by (rule decode_eq)

lemma name_at_bounds: "name_at p off ls k nx \<Longrightarrow> off < nx \<and> nx \<le> length p"
  by (induction rule: name_at.induct) auto

lemma decode_next_bounds:
  "decodeDNSName p start = Ret (Some (nm, nx)) \<Longrightarrow> start < nx \<and> nx \<le> length p"
  using name_at_bounds by (auto simp: decode_eq)

lemma decode_total: "\<exists>res. decodeDNSName p start = Ret res"
  unfolding decodeDNSName_def by (cases "decode_loop 128 p [] start start False") auto

lemma name_length:
  "name_at p off ls k nx \<Longrightarrow> length ls \<le> k \<and> (\<forall>l \<in> set ls. 0 < length l \<and> length l < 64)"
  by (induction rule: name_at.induct) (auto simp: bytes_string_def)

text \<open>
  C37. Bounds of the name reader: the offset it returns lies behind the start and not behind the
  end of the packet, and a name has at most 127 labels of 1 to 63 bytes, so a packet full of
  pointers cannot make it long; without a name it returns \<open>false\<close>, after at most 128 iterations.
\<close>

theorem decodeDNSName_bounds:
  "decodeDNSName p start = Ret None \<or>
   (\<exists>ls nx. decodeDNSName p start = Ret (Some (strings_Join ls ''.'' @ ''.'', nx)) \<and>
      start < nx \<and> nx \<le> length p \<and> length ls \<le> 127 \<and> (\<forall>l \<in> set ls. length l \<in> {1..63}))"
proof -
  obtain res where res: "decodeDNSName p start = Ret res" using decode_total by blast
  show ?thesis
  proof (cases res)
    case (Some x)
    obtain nm nx where x: "x = (nm, nx)" by (cases x)
    with res Some obtain ls k where k: "k < 128" and na: "name_at p start ls k nx"
      and nm: "nm = strings_Join ls ''.'' @ ''.''"
      by (auto simp: decode_eq)
    from name_length [OF na] k have "length ls \<le> 127" "\<forall>l \<in> set ls. length l \<in> {1..63}" by (auto simp: Suc_le_eq)
    with name_at_bounds [OF na] res Some x nm show ?thesis by auto
  qed (use res in simp)
qed

section \<open>Messages\<close>

text \<open>The 16-bit field at an offset.\<close>

definition uint16_at :: "packet \<Rightarrow> nat \<Rightarrow> 16 word" where
  "uint16_at p i = push_bit 8 (ucast (p ! i)) OR ucast (p ! (i + 1))"

lemma read_uint16:
  "hi = i + 2 \<Longrightarrow> hi \<le> length p \<Longrightarrow>
     obind (slice_bytes p i hi) (\<lambda>b. obind (BigEndian_Uint16 b) f) = f (uint16_at p i)"
  using slice_two [of i p] by (simp add: uint16_at_def)

lemma parse_question_eq:
  "parse_question p =
     (if length p < 12 \<or> uint16_at p 4 = 0 then Ret None
      else obind (decodeDNSName p 12) (\<lambda>res.
        case res of
          None \<Rightarrow> Ret None
        | Some (nm, offset) \<Rightarrow>
            if length p < offset + 4 then Ret None
            else Ret (Some \<lparr>msg_name = nm, msg_qtype = dnsTypeName (uint16_at p offset),
              msg_response = (uint16_at p 2 AND 0x8000 \<noteq> 0),
              msg_rcode = dnsRCodeName (uint16_at p 2 AND 0x000F)\<rparr>)))"
proof (cases "length p < 12")
  case True
  then show ?thesis by (simp add: parse_question_def)
next
  case False
  obtain res where res: "decodeDNSName p 12 = Ret res" using decode_total by blast
  show ?thesis
  proof (cases res)
    case None
    with False res show ?thesis by (simp add: parse_question_def read_uint16)
  next
    case (Some x)
    obtain nm nx where x: "x = (nm, nx)" by (cases x)
    show ?thesis
    proof (cases "length p < nx + 4")
      case True
      with False res Some x show ?thesis by (simp add: parse_question_def read_uint16)
    next
      case fits: False
      then have "nx + 2 \<le> length p" by simp
      with fits False res Some x show ?thesis by (simp add: parse_question_def read_uint16)
    qed
  qed
qed

lemma parse_question_total: "\<exists>res. parse_question p = Ret res"
proof -
  obtain res where res: "decodeDNSName p 12 = Ret res" using decode_total by blast
  show ?thesis
    unfolding parse_question_eq res obind.simps
    by (cases res) (simp_all split: prod.split)
qed

lemma parse_framed:
  assumes "2 \<le> length p"
  shows "parseDNSMessage p True =
    (if length p - 2 < unat (uint16_at p 0) then Ret None
     else parse_question (take (unat (uint16_at p 0)) (drop 2 p)))"
proof -
  have "parseDNSMessage p True =
      (let messageLength = unat (uint16_at p 0) in
       if messageLength > length p - 2 then Ret None
       else obind (slice_bytes p 2 (2 + messageLength)) parse_question)"
    unfolding parseDNSMessage_def using assms
    by (simp only: read_uint16 [where i = 0 and hi = 2 and p = p] not_less if_True if_False) simp
  moreover have "slice_bytes p 2 (2 + n) = Ret (take n (drop 2 p))" if "\<not> n > length p - 2" for n
    using that assms unfolding slice_bytes_def by (subst if_P) simp_all
  ultimately show ?thesis by (simp add: Let_def)
qed

lemma parse_total: "\<exists>res. parseDNSMessage p framed = Ret res"
proof (cases "framed \<and> 2 \<le> length p")
  case True
  then show ?thesis using parse_question_total by (simp add: parse_framed)
next
  case False
  then show ?thesis using parse_question_total by (auto simp: parseDNSMessage_def)
qed

text \<open>
  C34. The message reader never panics: whatever bytes a socket delivers, no index and no slice of
  \<open>parseDNSMessage\<close> and \<open>decodeDNSName\<close> is out of range.
\<close>

theorem parseDNSMessage_never_panics: "parseDNSMessage p framed \<noteq> Panic"
  using parse_total [of p framed] by auto

text \<open>
  What the reader takes from a message: it returns a question exactly when the packet has a
  header, at least one question, a readable name and four bytes after it; the result is the name,
  the type behind the name and the response bit and code of the flags.
\<close>

theorem parseDNSMessage_iff:
  "parseDNSMessage p False = Ret (Some m) \<longleftrightarrow>
     (\<exists>ls k nx. 12 \<le> length p \<and> uint16_at p 4 \<noteq> 0 \<and> k < 128 \<and> name_at p 12 ls k nx \<and>
        nx + 4 \<le> length p \<and>
        m = \<lparr>msg_name = strings_Join ls ''.'' @ ''.'', msg_qtype = dnsTypeName (uint16_at p nx),
             msg_response = (uint16_at p 2 AND 0x8000 \<noteq> 0),
             msg_rcode = dnsRCodeName (uint16_at p 2 AND 0x000F)\<rparr>)"
proof -
  obtain res where res: "decodeDNSName p 12 = Ret res" using decode_total by blast
  have "parseDNSMessage p False = Ret (Some m) \<longleftrightarrow> 12 \<le> length p \<and> uint16_at p 4 \<noteq> 0 \<and>
      (\<exists>nm nx. res = Some (nm, nx) \<and> nx + 4 \<le> length p \<and>
        m = \<lparr>msg_name = nm, msg_qtype = dnsTypeName (uint16_at p nx),
             msg_response = (uint16_at p 2 AND 0x8000 \<noteq> 0),
             msg_rcode = dnsRCodeName (uint16_at p 2 AND 0x000F)\<rparr>)"
    by (cases res) (auto simp: parseDNSMessage_def parse_question_eq res not_less split: prod.splits)
  moreover have "res = Some (nm, nx) \<longleftrightarrow>
      (\<exists>ls k. k < 128 \<and> name_at p 12 ls k nx \<and> nm = strings_Join ls ''.'' @ ''.'')" for nm nx
    using decode_eq [of p 12 nm nx] by (simp add: res)
  ultimately show ?thesis by blast
qed

section \<open>Reading what was written\<close>

text \<open>The uncompressed encoding of a name, and of a message with one or more questions.\<close>

definition string_bytes :: "string \<Rightarrow> byte list" where
  "string_bytes s = map (\<lambda>c. word_of_nat (of_char c)) s"

definition put_uint16 :: "16 word \<Rightarrow> byte list" where
  "put_uint16 w = [ucast (drop_bit 8 w), ucast w]"

fun encode_name :: "string list \<Rightarrow> byte list" where
  "encode_name [] = [0]"
| "encode_name (l # ls) = word_of_nat (length l) # string_bytes l @ encode_name ls"

definition wire_name :: "string list \<Rightarrow> bool" where
  "wire_name ls \<longleftrightarrow> length ls \<le> 127 \<and> (\<forall>l \<in> set ls. 0 < length l \<and> length l < 64)"

definition encode_message :: "16 word \<Rightarrow> 16 word \<Rightarrow> 16 word \<Rightarrow> byte list \<Rightarrow> string list \<Rightarrow> 16 word \<Rightarrow> byte list \<Rightarrow> packet" where
  "encode_message ident flags qdcount counts ls qtype rest =
     put_uint16 ident @ put_uint16 flags @ put_uint16 qdcount @ counts @ encode_name ls
       @ put_uint16 qtype @ rest"

definition frame :: "packet \<Rightarrow> packet" where
  "frame m = put_uint16 (word_of_nat (length m)) @ m"

lemma byte_char_of_char [simp]: "byte_char (word_of_nat (of_char c)) = c"
proof -
  have "(of_char c :: nat) mod 256 < 256" by simp
  then have "of_char c < (256 :: nat)" by (simp only: of_char_mod_256)
  then have "unat (word_of_nat (of_char c) :: byte) = of_char c"
    by (simp add: unsigned_of_nat take_bit_nat_eq_self_iff)
  then show ?thesis by (simp add: byte_char_def)
qed

lemma bytes_string_inverse [simp]: "bytes_string (string_bytes s) = s"
  by (simp add: bytes_string_def string_bytes_def comp_def)

lemma length_string_bytes [simp]: "length (string_bytes s) = length s"
  by (simp add: string_bytes_def)

lemma uint16_put [simp]:
  "push_bit 8 (ucast (ucast (drop_bit 8 (w :: 16 word)) :: byte)) OR ucast (ucast w :: byte) = w"
  by (rule bit_word_eqI) (auto simp: bit_simps not_le)

lemma name_at_encode:
  assumes "\<forall>l \<in> set ls. 0 < length l \<and> length l < 64"
  shows "name_at (pre @ encode_name ls @ post) (length pre) ls (length ls)
    (length pre + length (encode_name ls))"
  using assms
proof (induction ls arbitrary: pre)
  case Nil
  have "name_at (pre @ encode_name [] @ post) (length pre) [] 0 (length pre + 1)"
    by (rule name_at.root) (simp_all add: nth_append)
  then show ?case by simp
next
  case (Cons l ls)
  let ?p = "pre @ encode_name (l # ls) @ post"
  let ?head = "word_of_nat (length l) # string_bytes l"
  have l: "unat (word_of_nat (length l) :: byte) = length l"
    using Cons.prems by (simp add: unsigned_of_nat take_bit_nat_eq_self_iff)
  then have b: "unat (?p ! length pre) = length l" by (simp add: nth_append)
  have "name_at ((pre @ ?head) @ encode_name ls @ post) (length (pre @ ?head)) ls (length ls)
      (length (pre @ ?head) + length (encode_name ls))"
    by (rule Cons.IH) (use Cons.prems in auto)
  then have "name_at ?p (length pre + 1 + length l) ls (length ls) (length pre + length (encode_name (l # ls)))"
    by (simp add: add.assoc)
  from name_at.label [OF _ b _ _ _ this] Cons.prems show ?case by (simp add: add.assoc)
qed

lemma decode_encode:
  assumes "wire_name ls"
  shows "decodeDNSName (pre @ encode_name ls @ post) (length pre) =
    Ret (Some (strings_Join ls ''.'' @ ''.'', length pre + length (encode_name ls)))"
  unfolding decode_eq
  using name_at_encode [of ls pre post] assms by (auto simp: wire_name_def intro!: exI [of _ "length ls"])

text \<open>
  Round trip of names: a name of at most 127 labels of 1 to 63 bytes, written at any place of
  a packet, is read back with the offset behind it. The loop bound of 128 is enough for every
  name that fits into the 255 bytes of the protocol.
\<close>

theorem decodeDNSName_roundtrip:
  assumes "wire_name ls"
  shows "decodeDNSName (pre @ encode_name ls @ post) (length pre) =
    Ret (Some (strings_Join ls ''.'' @ ''.'', length pre + length (encode_name ls)))"
  by (rule decode_encode [OF assms])

theorem decodeDNSName_roundtrip_witness:
  "decodeDNSName ([7] @ encode_name [''api'', ''test''] @ [1]) 1 = Ret (Some (''api.test.'', 11))"
proof -
  have "wire_name [''api'', ''test'']" by (simp add: wire_name_def)
  from decodeDNSName_roundtrip [OF this, of "[7]" "[1]"] show ?thesis by simp
qed

lemma parse_encode:
  assumes ls: "wire_name ls" and "qdcount \<noteq> 0" and "length counts = 6" and "2 \<le> length rest"
  shows "parse_question (encode_message ident flags qdcount counts ls qtype rest) =
    Ret (Some \<lparr>msg_name = strings_Join ls ''.'' @ ''.'', msg_qtype = dnsTypeName qtype,
      msg_response = (flags AND 0x8000 \<noteq> 0), msg_rcode = dnsRCodeName (flags AND 0x000F)\<rparr>)"
proof -
  let ?pre = "put_uint16 ident @ put_uint16 flags @ put_uint16 qdcount @ counts"
  let ?post = "put_uint16 qtype @ rest"
  let ?p = "encode_message ident flags qdcount counts ls qtype rest"
  let ?nx = "12 + length (encode_name ls)"
  have pre: "length ?pre = 12" using assms(3) by (simp add: put_uint16_def)
  have p: "?p = ?pre @ encode_name ls @ ?post" by (simp add: encode_message_def)
  have d: "decodeDNSName ?p 12 = Ret (Some (strings_Join ls ''.'' @ ''.'', ?nx))"
    using decode_encode [OF ls, of ?pre ?post] by (simp only: p pre)
  have "length ?p = ?nx + 2 + length rest"
    using pre unfolding p by (simp add: put_uint16_def)
  then have len: "12 \<le> length ?p" "?nx + 4 \<le> length ?p" using assms(4) by simp_all
  have "uint16_at ?p 4 = qdcount" "uint16_at ?p 2 = flags"
    using assms(3) by (simp_all add: uint16_at_def encode_message_def put_uint16_def nth_Cons')
  moreover have "uint16_at ?p ?nx = qtype"
  proof -
    have "?p = (?pre @ encode_name ls) @ ?post" by (simp add: p)
    moreover have "length (?pre @ encode_name ls) = ?nx" using pre by simp
    ultimately have "?p ! ?nx = ucast (drop_bit 8 qtype)" "?p ! (?nx + 1) = ucast qtype"
      by (simp_all only: nth_append) (simp_all add: put_uint16_def)
    then show ?thesis by (simp add: uint16_at_def)
  qed
  ultimately show ?thesis
    using len assms(2) by (simp add: parse_question_eq d not_less)
qed

lemma parse_frame:
  assumes "length m < 65536"
  shows "parseDNSMessage (frame m @ tail) True = parse_question m"
proof -
  have "uint16_at (frame m @ tail) 0 = word_of_nat (length m)"
    by (simp add: uint16_at_def frame_def put_uint16_def)
  then have "unat (uint16_at (frame m @ tail) 0) = length m"
    using assms by (simp add: unsigned_of_nat take_bit_nat_eq_self_iff)
  then show ?thesis
    by (subst parse_framed) (simp_all add: frame_def put_uint16_def)
qed

text \<open>
  C19. Round trip of messages: from an encoded query or response the reader takes the name, the
  type and the flags that were written, over UDP and, behind the length prefix, over TCP.
\<close>

theorem parseDNSMessage_roundtrip:
  assumes "wire_name ls" and "qdcount \<noteq> 0" and "length counts = 6" and "2 \<le> length rest"
    and m: "m = encode_message ident flags qdcount counts ls qtype rest" and "length m < 65536"
  shows "parseDNSMessage m False =
      Ret (Some \<lparr>msg_name = strings_Join ls ''.'' @ ''.'', msg_qtype = dnsTypeName qtype,
        msg_response = (flags AND 0x8000 \<noteq> 0), msg_rcode = dnsRCodeName (flags AND 0x000F)\<rparr>) \<and>
    parseDNSMessage (frame m @ tail) True = parseDNSMessage m False"
  using parse_encode [OF assms(1-4)] parse_frame [OF assms(6)] m by (simp add: parseDNSMessage_def)

definition sample_query :: packet where
  "sample_query = encode_message 42 0x0100 1 [0, 0, 0, 0, 0, 0] [''api'', ''test''] 28 [0, 1]"

theorem parseDNSMessage_roundtrip_witness:
  "parseDNSMessage (frame sample_query @ [1]) True =
     Ret (Some \<lparr>msg_name = ''api.test.'', msg_qtype = ''AAAA'', msg_response = False,
       msg_rcode = ''NOERROR''\<rparr>)"
proof -
  have w: "wire_name [''api'', ''test'']" by (simp add: wire_name_def)
  have "length sample_query < 65536" by (simp add: sample_query_def encode_message_def put_uint16_def)
  from parseDNSMessage_roundtrip [OF w _ _ _ sample_query_def this, of "[1]"] show ?thesis
    by (simp add: dnsTypeName_def dnsRCodeName_def)
qed

theorem decodeDNSName_bounds_witness:
  "\<exists>ls nx. decodeDNSName ([7] @ encode_name [''api''] @ [1]) 1 =
     Ret (Some (strings_Join ls ''.'' @ ''.'', nx)) \<and> 1 < nx \<and> nx \<le> 7 \<and> length ls \<le> 127"
proof -
  let ?p = "[7] @ encode_name [''api''] @ [1]"
  have "wire_name [''api'']" by (simp add: wire_name_def)
  from decode_encode [OF this, of "[7]" "[1]"] have "decodeDNSName ?p 1 \<noteq> Ret None" by simp
  moreover have "length ?p = 7" by simp
  ultimately show ?thesis using decodeDNSName_bounds [of ?p 1] by metis
qed

end
