(* ===== verification/Loadgen_Tracker.thy ===== *)
theory Loadgen_Tracker
  imports Loadgen_Wire "HOL-Library.Multiset" "HOL-Library.Product_Lexorder"
begin

text \<open>
  The tracker of \<open>docs/dns-demo/loadgen/main.go\<close>: the counters that requests and responses
  update, the statistics per name and type, the sorted snapshot, and the connections that record
  what passes through them. Counters are 64-bit words. The mutex makes each update and the
  snapshot one step; the order of the updates is any order. The pointer that \<open>candidate\<close> returns
  is used at once, so an update through it is an update of the map.
\<close>

section \<open>The tracker\<close>

record dnsCandidateStats =
  cs_requests :: "64 word"
  cs_responses :: "64 word"
  cs_rcodes :: "string \<rightharpoonup> 64 word"

record dnsTracker =
  tr_requests :: "64 word"
  tr_responses :: "64 word"
  tr_nxdomain :: "64 word"
  tr_candidates :: "string \<rightharpoonup> dnsCandidateStats"

definition newDNSTracker :: dnsTracker where
  "newDNSTracker = \<lparr>tr_requests = 0, tr_responses = 0, tr_nxdomain = 0, tr_candidates = Map.empty\<rparr>"

definition NUL :: char where
  "NUL = CHR 0x00"

definition candidate_key :: "dnsMessage \<Rightarrow> string" where
  "candidate_key message = msg_name message @ [NUL] @ msg_qtype message"

text \<open>\<open>candidate\<close>: the statistics under the key, which a first use creates.\<close>

definition candidate :: "dnsTracker \<Rightarrow> dnsMessage \<Rightarrow> dnsCandidateStats" where
  "candidate t message =
     (case tr_candidates t (candidate_key message) of
        None \<Rightarrow> \<lparr>cs_requests = 0, cs_responses = 0, cs_rcodes = Map.empty\<rparr>
      | Some c \<Rightarrow> c)"

definition put_candidate :: "dnsMessage \<Rightarrow> dnsCandidateStats \<Rightarrow> dnsTracker \<Rightarrow> dnsTracker" where
  "put_candidate message c t = t\<lparr>tr_candidates := (tr_candidates t)(candidate_key message \<mapsto> c)\<rparr>"

text \<open>The value of a counter in a map; a missing one reads as zero.\<close>

definition rcode_count :: "(string \<rightharpoonup> 64 word) \<Rightarrow> string \<Rightarrow> 64 word" where
  "rcode_count m k = (case m k of None \<Rightarrow> 0 | Some n \<Rightarrow> n)"

definition add_request :: "dnsMessage \<Rightarrow> dnsTracker \<Rightarrow> dnsTracker" where
  "add_request message t =
     (let t = t\<lparr>tr_requests := tr_requests t + 1\<rparr>;
          c = candidate t message;
          c = c\<lparr>cs_requests := cs_requests c + 1\<rparr>
      in put_candidate message c t)"

definition recordRequest :: "packet \<Rightarrow> bool \<Rightarrow> dnsTracker \<Rightarrow> dnsTracker outcome" where
  "recordRequest packet tcpFramed t =
     obind (parseDNSMessage packet tcpFramed) (\<lambda>res.
       case res of
         None \<Rightarrow> Ret t
       | Some message \<Rightarrow> if msg_response message then Ret t else Ret (add_request message t))"

definition add_response :: "dnsMessage \<Rightarrow> dnsTracker \<Rightarrow> dnsTracker" where
  "add_response message t =
     (let t = t\<lparr>tr_responses := tr_responses t + 1\<rparr>;
          t = (if msg_rcode message = ''NXDOMAIN'' then t\<lparr>tr_nxdomain := tr_nxdomain t + 1\<rparr> else t);
          c = candidate t message;
          c = c\<lparr>cs_responses := cs_responses c + 1\<rparr>;
          c = c\<lparr>cs_rcodes := (cs_rcodes c)(msg_rcode message \<mapsto> rcode_count (cs_rcodes c) (msg_rcode message) + 1)\<rparr>
      in put_candidate message c t)"

definition recordResponse :: "packet \<Rightarrow> bool \<Rightarrow> dnsTracker \<Rightarrow> dnsTracker outcome" where
  "recordResponse packet tcpFramed t =
     obind (parseDNSMessage packet tcpFramed) (\<lambda>res.
       case res of
         None \<Rightarrow> Ret t
       | Some message \<Rightarrow> if \<not> msg_response message then Ret t else Ret (add_response message t))"

section \<open>The snapshot\<close>

record dnsCandidateResult =
  cr_Name :: string
  cr_Type :: string
  cr_Requests :: "64 word"
  cr_Responses :: "64 word"
  cr_RCodes :: "string \<rightharpoonup> 64 word"

text \<open>\<open>strings.SplitN(key, "\x00", 2)\<close>: one part without the separator, otherwise two.\<close>

definition SplitN2 :: "string \<Rightarrow> string list" where
  "SplitN2 key =
     (let pre = takeWhile (\<lambda>c. c \<noteq> NUL) key
      in if pre = key then [key] else [pre, tl (dropWhile (\<lambda>c. c \<noteq> NUL) key)])"

definition candidate_result :: "string \<Rightarrow> dnsCandidateStats \<Rightarrow> dnsCandidateResult outcome" where
  "candidate_result key stats =
     (case SplitN2 key of
        p0 # p1 # ps \<Rightarrow> Ret \<lparr>cr_Name = p0, cr_Type = p1, cr_Requests = cs_requests stats,
          cr_Responses = cs_responses stats, cr_RCodes = cs_rcodes stats\<rparr>
      | _ \<Rightarrow> Panic)"

text \<open>
  \<open>strings.Compare\<close> orders byte strings lexicographically; \<open>slices.SortFunc\<close> sorts by a comparison
  function, in any order among equal elements, here by insertion.
\<close>

definition strings_Compare :: "string \<Rightarrow> string \<Rightarrow> int" where
  "strings_Compare a b = (if a < b then -1 else if a = b then 0 else 1)"

definition compare_results :: "dnsCandidateResult \<Rightarrow> dnsCandidateResult \<Rightarrow> int" where
  "compare_results a b =
     (if cr_Name a = cr_Name b then strings_Compare (cr_Type a) (cr_Type b)
      else strings_Compare (cr_Name a) (cr_Name b))"

fun insert_by :: "('a \<Rightarrow> 'a \<Rightarrow> int) \<Rightarrow> 'a \<Rightarrow> 'a list \<Rightarrow> 'a list" where
  "insert_by cmp x [] = [x]"
| "insert_by cmp x (y # ys) = (if cmp x y \<le> 0 then x # y # ys else y # insert_by cmp x ys)"

definition slices_SortFunc :: "('a \<Rightarrow> 'a \<Rightarrow> int) \<Rightarrow> 'a list \<Rightarrow> 'a list" where
  "slices_SortFunc cmp xs = foldr (insert_by cmp) xs []"

text \<open>The loop over the map of candidates visits its keys in an order of the run time's choice.\<close>

fun collect :: "dnsTracker \<Rightarrow> string list \<Rightarrow> dnsCandidateResult list \<Rightarrow> dnsCandidateResult list outcome" where
  "collect t [] candidates = Ret candidates"
| "collect t (key # order) candidates =
     (case tr_candidates t key of
        None \<Rightarrow> collect t order candidates
      | Some stats \<Rightarrow>
          obind (candidate_result key stats) (\<lambda>r. collect t order (candidates @ [r])))"

definition snapshot ::
  "string list \<Rightarrow> dnsTracker \<Rightarrow> (64 word \<times> 64 word \<times> 64 word \<times> dnsCandidateResult list) outcome" where
  "snapshot order t =
     obind (collect t order []) (\<lambda>candidates.
       Ret (tr_requests t, tr_responses t, tr_nxdomain t, slices_SortFunc compare_results candidates))"

section \<open>Recording any number of packets\<close>

datatype traffic = Request_packet packet bool | Response_packet packet bool

primrec record_one :: "traffic \<Rightarrow> dnsTracker \<Rightarrow> dnsTracker outcome" where
  "record_one (Request_packet p framed) t = recordRequest p framed t"
| "record_one (Response_packet p framed) t = recordResponse p framed t"

fun record_all :: "traffic list \<Rightarrow> dnsTracker \<Rightarrow> dnsTracker outcome" where
  "record_all [] t = Ret t"
| "record_all (e # es) t = obind (record_one e t) (record_all es)"

text \<open>What a packet does to the tracker, as a total function.\<close>

definition question_of :: "packet \<Rightarrow> bool \<Rightarrow> dnsMessage option" where
  "question_of p framed = (case parseDNSMessage p framed of Ret r \<Rightarrow> r | Panic \<Rightarrow> None)"

primrec effect_of :: "traffic \<Rightarrow> dnsTracker \<Rightarrow> dnsTracker" where
  "effect_of (Request_packet p framed) =
     (case question_of p framed of
        Some m \<Rightarrow> (if msg_response m then id else add_request m) | None \<Rightarrow> id)"
| "effect_of (Response_packet p framed) =
     (case question_of p framed of
        Some m \<Rightarrow> (if msg_response m then add_response m else id) | None \<Rightarrow> id)"

lemma record_one_effect: "record_one e t = Ret (effect_of e t)"
proof (cases e)
  case (Request_packet p framed)
  obtain res where "parseDNSMessage p framed = Ret res" using parse_total by blast
  with Request_packet show ?thesis by (simp add: recordRequest_def question_of_def split: option.split)
next
  case (Response_packet p framed)
  obtain res where "parseDNSMessage p framed = Ret res" using parse_total by blast
  with Response_packet show ?thesis by (simp add: recordResponse_def question_of_def split: option.split)
qed

lemma record_all_effect: "record_all es t = Ret (fold effect_of es t)"
  by (induction es arbitrary: t) (simp_all add: record_one_effect)

section \<open>Recording in any order\<close>

text \<open>Every packet adds to the counters and changes the statistics under one key.\<close>

definition bump ::
  "64 word \<Rightarrow> 64 word \<Rightarrow> 64 word \<Rightarrow> dnsMessage \<Rightarrow> (dnsCandidateStats \<Rightarrow> dnsCandidateStats) \<Rightarrow>
     dnsTracker \<Rightarrow> dnsTracker" where
  "bump a b c m f t =
     put_candidate m (f (candidate t m))
       (t\<lparr>tr_requests := tr_requests t + a, tr_responses := tr_responses t + b,
          tr_nxdomain := tr_nxdomain t + c\<rparr>)"

definition more_requests :: "dnsCandidateStats \<Rightarrow> dnsCandidateStats" where
  "more_requests c = c\<lparr>cs_requests := cs_requests c + 1\<rparr>"

definition more_responses :: "string \<Rightarrow> dnsCandidateStats \<Rightarrow> dnsCandidateStats" where
  "more_responses r c =
     c\<lparr>cs_responses := cs_responses c + 1, cs_rcodes := (cs_rcodes c)(r \<mapsto> rcode_count (cs_rcodes c) r + 1)\<rparr>"

lemma add_request_bump: "add_request m = bump 1 0 0 m more_requests"
  by (rule ext) (simp add: add_request_def bump_def more_requests_def Let_def candidate_def put_candidate_def)

lemma add_response_bump:
  "add_response m =
     bump 0 1 (if msg_rcode m = ''NXDOMAIN'' then 1 else 0) m (more_responses (msg_rcode m))"
  by (rule ext) (simp add: add_response_def bump_def more_responses_def Let_def candidate_def put_candidate_def)

lemma bump_commute:
  assumes "f \<circ> g = g \<circ> f"
  shows "bump a b c m f \<circ> bump a' b' c' m' g = bump a' b' c' m' g \<circ> bump a b c m f"
proof (rule ext)
  fix t
  have fg: "f (g x) = g (f x)" for x using assms by (metis comp_apply)
  show "(bump a b c m f \<circ> bump a' b' c' m' g) t = (bump a' b' c' m' g \<circ> bump a b c m f) t"
  proof (cases "candidate_key m = candidate_key m'")
    case True
    then show ?thesis by (simp add: bump_def put_candidate_def candidate_def fg algebra_simps)
  next
    case False
    then show ?thesis
      by (simp add: bump_def put_candidate_def candidate_def algebra_simps fun_upd_twist)
  qed
qed

lemma stats_commute:
  "more_requests \<circ> more_responses r = more_responses r \<circ> more_requests"
  "more_responses r \<circ> more_responses r' = more_responses r' \<circ> more_responses r"
proof -
  show "more_requests \<circ> more_responses r = more_responses r \<circ> more_requests"
    by (rule ext) (simp add: more_requests_def more_responses_def)
  show "more_responses r \<circ> more_responses r' = more_responses r' \<circ> more_responses r"
    by (cases "r = r'") (auto simp: more_responses_def rcode_count_def fun_eq_iff fun_upd_twist)
qed

lemma effect_cases:
  obtains "effect_of e = id" | m where "effect_of e = add_request m" | m where "effect_of e = add_response m"
proof -
  have "effect_of e = id \<or> (\<exists>m. effect_of e = add_request m) \<or> (\<exists>m. effect_of e = add_response m)"
    by (cases e) (auto split: option.split)
  then show ?thesis using that by blast
qed

text \<open>The changes of the statistics that packets make commute.\<close>

definition stats_change :: "(dnsCandidateStats \<Rightarrow> dnsCandidateStats) \<Rightarrow> bool" where
  "stats_change f \<longleftrightarrow> f = more_requests \<or> (\<exists>r. f = more_responses r)"

lemma stats_change_commute: "stats_change f \<Longrightarrow> stats_change g \<Longrightarrow> f \<circ> g = g \<circ> f"
  unfolding stats_change_def using stats_commute by metis

lemma effect_bump:
  "effect_of e = id \<or> (\<exists>a b c m f. effect_of e = bump a b c m f \<and> stats_change f)"
proof (rule effect_cases [of e])
  fix m
  assume "effect_of e = add_request m"
  then show ?thesis unfolding add_request_bump stats_change_def by blast
next
  fix m
  assume "effect_of e = add_response m"
  then show ?thesis unfolding add_response_bump stats_change_def by blast
qed simp

lemma effect_commute: "effect_of e \<circ> effect_of e' = effect_of e' \<circ> effect_of e"
  using effect_bump [of e] effect_bump [of e'] bump_commute [OF stats_change_commute]
  by (metis comp_id id_comp)

lemma record_all_permuted: "mset es = mset es' \<Longrightarrow> record_all es t = record_all es' t"
  using fold_multiset_equiv [of es effect_of es'] effect_commute by (simp add: record_all_effect)

text \<open>
  C8. The order in which the workers' packets reach the tracker is irrelevant: recording the same
  packets in any order, with any repetition counts kept, gives the same tracker, and recording
  never panics.
\<close>

theorem record_order_irrelevant:
  assumes "mset es = mset es'"
  shows "record_all es t = record_all es' t \<and> record_all es t \<noteq> Panic"
  using record_all_permuted [OF assms] by (simp add: record_all_effect)

theorem record_order_irrelevant_witness:
  "record_all [Request_packet sample_query False, Response_packet [0] True] newDNSTracker =
   record_all [Response_packet [0] True, Request_packet sample_query False] newDNSTracker"
  using record_order_irrelevant [of "[Request_packet sample_query False, Response_packet [0] True]"
      "[Response_packet [0] True, Request_packet sample_query False]"]
  by simp

section \<open>Totals\<close>

definition sound_stats :: "dnsCandidateStats \<Rightarrow> bool" where
  "sound_stats c \<longleftrightarrow> finite (dom (cs_rcodes c)) \<and> cs_responses c = sum_map (cs_rcodes c) id"

definition sound_tracker :: "dnsTracker \<Rightarrow> bool" where
  "sound_tracker t \<longleftrightarrow>
     finite (dom (tr_candidates t)) \<and>
     (\<forall>k c. tr_candidates t k = Some c \<longrightarrow> NUL \<in> set k \<and> sound_stats c) \<and>
     tr_requests t = sum_map (tr_candidates t) cs_requests \<and>
     tr_responses t = sum_map (tr_candidates t) cs_responses \<and>
     tr_nxdomain t = sum_map (tr_candidates t) (\<lambda>c. rcode_count (cs_rcodes c) ''NXDOMAIN'')"

definition no_stats :: dnsCandidateStats where
  "no_stats = \<lparr>cs_requests = 0, cs_responses = 0, cs_rcodes = Map.empty\<rparr>"

lemma candidate_alt:
  "candidate t m = (case tr_candidates t (candidate_key m) of None \<Rightarrow> no_stats | Some c \<Rightarrow> c)"
  by (simp add: candidate_def no_stats_def split: option.split)

lemma sum_map_candidate:
  assumes "finite (dom (tr_candidates t))" and "g no_stats = 0"
  shows "sum_map ((tr_candidates t)(candidate_key m \<mapsto> c)) g =
    sum_map (tr_candidates t) g + (g c - g (candidate t m))"
  using sum_map_update [OF assms(1), of "candidate_key m" c g] assms(2)
  by (auto simp: candidate_alt split: option.splits)

lemma bump_sound:
  assumes t: "sound_tracker t" and f: "\<And>c. sound_stats c \<Longrightarrow> sound_stats (f c)"
    and "\<And>c. cs_requests (f c) = cs_requests c + a" and "\<And>c. cs_responses (f c) = cs_responses c + b"
    and "\<And>c. rcode_count (cs_rcodes (f c)) ''NXDOMAIN'' = rcode_count (cs_rcodes c) ''NXDOMAIN'' + d"
  shows "sound_tracker (bump a b d m f t)"
proof -
  have fin: "finite (dom (tr_candidates t))" using t by (simp add: sound_tracker_def)
  have "sound_stats (candidate t m)"
    using t by (auto simp: candidate_alt sound_tracker_def no_stats_def sound_stats_def split: option.split)
  then have stats: "\<forall>k c. tr_candidates (bump a b d m f t) k = Some c \<longrightarrow> NUL \<in> set k \<and> sound_stats c"
    using t f by (auto simp: bump_def put_candidate_def sound_tracker_def candidate_key_def)
  have zero: "rcode_count (cs_rcodes no_stats) ''NXDOMAIN'' = 0" "cs_requests no_stats = 0" "cs_responses no_stats = 0"
    by (simp_all add: no_stats_def rcode_count_def)
  note sums = sum_map_candidate [OF fin, of cs_requests, OF zero(2)]
    sum_map_candidate [OF fin, of cs_responses, OF zero(3)]
    sum_map_candidate [OF fin, of "\<lambda>c. rcode_count (cs_rcodes c) ''NXDOMAIN''", OF zero(1)]
  show ?thesis
    using t fin stats unfolding sound_tracker_def
    by (simp add: bump_def put_candidate_def assms(3-5) sums)
qed

lemma more_responses_sound: "sound_stats c \<Longrightarrow> sound_stats (more_responses r c)"
  by (auto simp: sound_stats_def more_responses_def sum_map_update rcode_count_def split: option.split)

lemma effect_sound: "sound_tracker t \<Longrightarrow> sound_tracker (effect_of e t)"
proof (rule effect_cases [of e])
  fix m
  assume t: "sound_tracker t" and e: "effect_of e = add_request m"
  show ?thesis unfolding e add_request_bump
    by (rule bump_sound [OF t]) (simp_all add: more_requests_def sound_stats_def)
next
  fix m
  assume t: "sound_tracker t" and e: "effect_of e = add_response m"
  show ?thesis unfolding e add_response_bump
    by (rule bump_sound [OF t more_responses_sound]) (auto simp: more_responses_def rcode_count_def)
qed simp

lemma record_all_sound: "sound_tracker t \<Longrightarrow> sound_tracker (fold effect_of es t)"
  by (induction es arbitrary: t) (simp_all add: effect_sound)

lemma new_sound: "sound_tracker newDNSTracker"
  by (simp add: sound_tracker_def newDNSTracker_def)

text \<open>
  The totals are the sums: after any traffic the counters of requests, responses and
  \<open>NXDOMAIN\<close> answers equal, modulo 2 to the 64, the sums over the candidates, and the responses
  of each candidate equal the sum over its response codes.
\<close>

theorem tracker_totals:
  "\<exists>t. record_all es newDNSTracker = Ret t \<and>
     tr_requests t = (\<Sum>k \<in> dom (tr_candidates t). cs_requests (the (tr_candidates t k))) \<and>
     tr_responses t = (\<Sum>k \<in> dom (tr_candidates t). cs_responses (the (tr_candidates t k))) \<and>
     tr_nxdomain t = (\<Sum>k \<in> dom (tr_candidates t). rcode_count (cs_rcodes (the (tr_candidates t k))) ''NXDOMAIN'') \<and>
     (\<forall>c \<in> ran (tr_candidates t). cs_responses c = (\<Sum>r \<in> dom (cs_rcodes c). the (cs_rcodes c r)))"
proof -
  from record_all_sound [OF new_sound, of es] have s: "sound_tracker (fold effect_of es newDNSTracker)" .
  then show ?thesis
    by (intro exI [of _ "fold effect_of es newDNSTracker"] conjI record_all_effect)
      (auto simp: sound_tracker_def sound_stats_def sum_map_def ran_def)
qed

section \<open>The sorted snapshot\<close>

definition result_key :: "dnsCandidateResult \<Rightarrow> string \<times> string" where
  "result_key r = (cr_Name r, cr_Type r)"

lemma compare_results_le: "compare_results a b \<le> 0 \<longleftrightarrow> result_key a \<le> result_key b"
  by (auto simp: compare_results_def strings_Compare_def result_key_def)

lemma SortFunc_sort_key: "slices_SortFunc compare_results = sort_key result_key"
proof -
  have "insert_by compare_results x ys = insort_key result_key x ys" for x ys
    by (induction ys) (simp_all add: compare_results_le)
  then have "insert_by compare_results = insort_key result_key" by (intro ext)
  then show ?thesis by (intro ext) (simp add: slices_SortFunc_def sort_key_def)
qed

definition split_key :: "string \<Rightarrow> string \<times> string" where
  "split_key key = (takeWhile (\<lambda>c. c \<noteq> NUL) key, tl (dropWhile (\<lambda>c. c \<noteq> NUL) key))"

definition entry :: "string \<Rightarrow> dnsCandidateStats \<Rightarrow> dnsCandidateResult" where
  "entry key stats =
     \<lparr>cr_Name = fst (split_key key), cr_Type = snd (split_key key), cr_Requests = cs_requests stats,
      cr_Responses = cs_responses stats, cr_RCodes = cs_rcodes stats\<rparr>"

lemma candidate_result_NUL: "NUL \<in> set key \<Longrightarrow> candidate_result key stats = Ret (entry key stats)"
  by (auto simp: candidate_result_def SplitN2_def Let_def entry_def split_key_def takeWhile_eq_all_conv)

lemma split_key_inj: "NUL \<in> set k \<Longrightarrow> NUL \<in> set k' \<Longrightarrow> split_key k = split_key k' \<Longrightarrow> k = k'"
proof -
  have "k = takeWhile (\<lambda>c. c \<noteq> NUL) k @ NUL # tl (dropWhile (\<lambda>c. c \<noteq> NUL) k)" if "NUL \<in> set k" for k
    using split_list_first [OF that] by (auto simp: takeWhile_append dropWhile_append)
  then show "NUL \<in> set k \<Longrightarrow> NUL \<in> set k' \<Longrightarrow> split_key k = split_key k' \<Longrightarrow> k = k'"
    by (metis fst_conv snd_conv split_key_def)
qed

lemma result_key_entry [simp]: "result_key (entry k c) = split_key k"
  by (simp add: result_key_def entry_def)

lemma collect_entries:
  assumes "\<forall>k \<in> dom (tr_candidates t). NUL \<in> set k" and "set order \<subseteq> dom (tr_candidates t)"
  shows "collect t order acc = Ret (acc @ map (\<lambda>k. entry k (the (tr_candidates t k))) order)"
  using assms(2)
proof (induction order arbitrary: acc)
  case Nil
  then show ?case by simp
next
  case (Cons k order)
  then obtain c where c: "tr_candidates t k = Some c" by auto
  with assms(1) have "NUL \<in> set k" by blast
  with Cons c show ?case by (simp add: candidate_result_NUL)
qed

text \<open>An order in which Go may visit the keys of the map.\<close>

definition visits :: "string list \<Rightarrow> dnsTracker \<Rightarrow> bool" where
  "visits order t \<longleftrightarrow> distinct order \<and> set order = dom (tr_candidates t)"

definition entries :: "string list \<Rightarrow> dnsTracker \<Rightarrow> dnsCandidateResult list" where
  "entries order t = sort_key result_key (map (\<lambda>k. entry k (the (tr_candidates t k))) order)"

lemma snapshot_entries:
  assumes "sound_tracker t" and "visits order t"
  shows "snapshot order t = Ret (tr_requests t, tr_responses t, tr_nxdomain t, entries order t)"
proof -
  have "collect t order [] = Ret (map (\<lambda>k. entry k (the (tr_candidates t k))) order)"
    using assms collect_entries [of t order "[]"] by (auto simp: sound_tracker_def visits_def)
  then show ?thesis by (simp add: snapshot_def SortFunc_sort_key entries_def)
qed

lemma entries_inj:
  assumes "sound_tracker t" and "visits order t"
  shows "inj_on split_key (set order)"
  using assms split_key_inj by (intro inj_onI) (auto simp: sound_tracker_def visits_def)

lemma entries_distinct:
  assumes "sound_tracker t" and "visits order t"
  shows "distinct (map result_key (map (\<lambda>k. entry k (the (tr_candidates t k))) order))"
  using entries_inj [OF assms] assms(2)
  by (simp add: comp_def distinct_map visits_def inj_on_def)

lemma entries_order:
  assumes "sound_tracker t" and "visits order t" and "visits order' t"
  shows "entries order' t = entries order t"
proof -
  let ?f = "\<lambda>k. entry k (the (tr_candidates t k))"
  have "mset order' = mset order"
    using assms(2,3) set_eq_iff_mset_eq_distinct [of order' order] by (simp add: visits_def)
  then have m: "mset (map ?f order') = mset (sort_key result_key (map ?f order))" by simp
  have inj: "inj_on result_key (set (map ?f order'))"
    using entries_distinct [OF assms(1,3)] unfolding distinct_map by blast
  show ?thesis
    unfolding entries_def by (rule sort_key_inj_key_eq [OF m inj sorted_sort_key])
qed

lemma entries_sorted:
  assumes "sound_tracker t" and "visits order t"
  shows "sorted_wrt (<) (map result_key (entries order t))"
proof -
  let ?es = "map (\<lambda>k. entry k (the (tr_candidates t k))) order"
  have "mset (map result_key (sort_key result_key ?es)) = mset (map result_key ?es)"
    by (simp only: mset_map mset_sort)
  from mset_eq_imp_distinct_iff [OF this] have "distinct (map result_key (entries order t))"
    using entries_distinct [OF assms] unfolding entries_def by (rule iffD2)
  then show ?thesis
    unfolding entries_def by (simp only: strict_sorted_iff sorted_sort_key simp_thms)
qed

text \<open>
  C22. The snapshot after any traffic never panics and does not depend on the order in which the
  run time visits the map: it holds one entry for each key, with the statistics under that key,
  strictly ordered by name and then type, so no name and type occur twice.
\<close>

theorem snapshot_deterministic:
  assumes "record_all es newDNSTracker = Ret t" and "visits order t" and "visits order' t"
  shows "\<exists>cs. snapshot order t = Ret (tr_requests t, tr_responses t, tr_nxdomain t, cs) \<and>
    snapshot order' t = snapshot order t \<and>
    sorted_wrt (\<lambda>a b. compare_results a b < 0) cs \<and>
    length cs = card (dom (tr_candidates t)) \<and>
    set cs = {entry k c | k c. tr_candidates t k = Some c}"
proof -
  have s: "sound_tracker t"
    using assms(1) record_all_sound [OF new_sound, of es] by (simp add: record_all_effect)
  have cmp: "compare_results a b < 0 \<longleftrightarrow> result_key a < result_key b" for a b
    using compare_results_le [of a b] by (auto simp: compare_results_def strings_Compare_def result_key_def)
  have "set (entries order t) = {entry k c | k c. tr_candidates t k = Some c}"
    using assms(2) by (force simp: entries_def visits_def)
  moreover have "length (entries order t) = card (dom (tr_candidates t))"
    using assms(2) by (simp add: entries_def visits_def flip: distinct_card)
  moreover have "sorted_wrt (\<lambda>a b. compare_results a b < 0) (entries order t)"
    using entries_sorted [OF s assms(2)] by (simp add: sorted_wrt_map cmp)
  ultimately show ?thesis
    using snapshot_entries [OF s] assms(2,3) entries_order [OF s assms(2,3)] by auto
qed

theorem snapshot_deterministic_witness:
  "\<exists>t order cs. record_all [Request_packet sample_query False] newDNSTracker = Ret t \<and>
     visits order t \<and> snapshot order t = Ret (tr_requests t, tr_responses t, tr_nxdomain t, cs)"
proof -
  obtain t where r: "record_all [Request_packet sample_query False] newDNSTracker = Ret t"
    and s: "sound_tracker t"
    using record_all_effect record_all_sound [OF new_sound] by blast
  from s have "finite (dom (tr_candidates t))" unfolding sound_tracker_def by (elim conjE)
  from finite_distinct_list [OF this] obtain order where v: "visits order t"
    unfolding visits_def by metis
  have "\<exists>cs. snapshot order t = Ret (tr_requests t, tr_responses t, tr_nxdomain t, cs)"
    using snapshot_deterministic [OF r v v] by (rule ex_forward) (elim conjE)
  with r v show ?thesis
    by (intro exI [of _ t] exI [of _ order]) simp
qed

text \<open>
  The snapshot shows the name and the type of a message exactly when no label of the name
  holds a zero byte, the separator of the key; otherwise the name is cut at that byte and the
  rest of it is shown as part of the type.
\<close>

theorem candidate_result_names_iff:
  "candidate_result (candidate_key m) c \<noteq> Panic \<and>
   (\<forall>r. candidate_result (candidate_key m) c = Ret r \<longrightarrow>
      ((cr_Name r = msg_name m \<and> cr_Type r = msg_qtype m) \<longleftrightarrow> NUL \<notin> set (msg_name m)))"
proof -
  let ?k = "candidate_key m"
  have k: "NUL \<in> set ?k" by (simp add: candidate_key_def)
  have "split_key ?k = (msg_name m, msg_qtype m) \<longleftrightarrow> NUL \<notin> set (msg_name m)"
  proof
    assume "split_key ?k = (msg_name m, msg_qtype m)"
    then have "takeWhile (\<lambda>c. c \<noteq> NUL) ?k = msg_name m" by (simp add: split_key_def)
    then show "NUL \<notin> set (msg_name m)" by (metis set_takeWhileD)
  next
    assume "NUL \<notin> set (msg_name m)"
    then have "takeWhile (\<lambda>c. c \<noteq> NUL) (msg_name m @ NUL # msg_qtype m) = msg_name m"
      "dropWhile (\<lambda>c. c \<noteq> NUL) (msg_name m @ NUL # msg_qtype m) = NUL # msg_qtype m"
      by (intro takeWhile_dropWhile_unique; auto)+
    then show "split_key ?k = (msg_name m, msg_qtype m)"
      by (simp add: split_key_def candidate_key_def)
  qed
  then show ?thesis
    by (simp add: candidate_result_NUL [OF k] entry_def prod_eq_iff)
qed

theorem candidate_result_names_iff_witness:
  "cr_Name (entry (candidate_key \<lparr>msg_name = [CHR ''a'', NUL, CHR ''b'', CHR ''.''], msg_qtype = ''A'',
     msg_response = False, msg_rcode = ''NOERROR''\<rparr>) no_stats) = ''a''"
proof -
  let ?m = "\<lparr>msg_name = [CHR ''a'', NUL, CHR ''b'', CHR ''.''], msg_qtype = ''A'',
     msg_response = False, msg_rcode = ''NOERROR''\<rparr>"
  from candidate_result_names_iff [of ?m no_stats] obtain r where
    "candidate_result (candidate_key ?m) no_stats = Ret r" by (cases "candidate_result (candidate_key ?m) no_stats") auto
  then show ?thesis by (simp add: entry_def split_key_def candidate_key_def NUL_def)
qed

section \<open>Connections that record their traffic\<close>

text \<open>
  The wrapped connection: a write and a read with the number of bytes and an error; a read fills
  the buffer it is given. The address of a packet connection is passed through.
\<close>

record ('w, 'a) conn =
  conn_Write :: "packet \<Rightarrow> 'w \<Rightarrow> (nat \<times> string option) \<times> 'w"
  conn_Read :: "packet \<Rightarrow> 'w \<Rightarrow> (packet \<times> nat \<times> string option) \<times> 'w"
  conn_WriteTo :: "packet \<Rightarrow> 'a \<Rightarrow> 'w \<Rightarrow> (nat \<times> string option) \<times> 'w"
  conn_ReadFrom :: "packet \<Rightarrow> 'w \<Rightarrow> (packet \<times> nat \<times> 'a \<times> string option) \<times> 'w"

record ('w, 'a) trackingConn =
  tc_Conn :: "('w, 'a) conn"
  tc_tcpFramed :: bool

datatype ('w, 'a) dialed =
  Tracked "('w, 'a) trackingConn" | TrackedPacket "('w, 'a) trackingConn"

text \<open>The \<open>Dial\<close> function of the resolver: the connection of the dialer with its framing.\<close>

definition Dial ::
  "(string \<Rightarrow> string \<Rightarrow> string + ('w, 'a) conn \<times> bool) \<Rightarrow> string \<Rightarrow> string \<Rightarrow> string + ('w, 'a) dialed" where
  "Dial DialContext network address =
     (case DialContext network address of
        Inl dialErr \<Rightarrow> Inl dialErr
      | Inr (c, is_packet_conn) \<Rightarrow>
          (let tracked = \<lparr>tc_Conn = c, tc_tcpFramed = (take 3 network = ''tcp'')\<rparr>
           in if is_packet_conn then Inr (TrackedPacket tracked) else Inr (Tracked tracked)))"

definition tracking_Write ::
  "('w, 'a) trackingConn \<Rightarrow> packet \<Rightarrow> 'w \<times> dnsTracker \<Rightarrow> ((nat \<times> string option) \<times> 'w \<times> dnsTracker) outcome" where
  "tracking_Write c packet s =
     (case s of (w, t) \<Rightarrow>
        obind (recordRequest packet (tc_tcpFramed c) t) (\<lambda>t.
          case conn_Write (tc_Conn c) packet w of (res, w) \<Rightarrow> Ret (res, w, t)))"

definition tracking_Read ::
  "('w, 'a) trackingConn \<Rightarrow> packet \<Rightarrow> 'w \<times> dnsTracker \<Rightarrow>
     ((packet \<times> nat \<times> string option) \<times> 'w \<times> dnsTracker) outcome" where
  "tracking_Read c packet s =
     (case s of (w, t) \<Rightarrow>
        case conn_Read (tc_Conn c) packet w of ((packet, n, err), w) \<Rightarrow>
          (if n > 0 then
             obind (slice_bytes packet 0 n) (\<lambda>p.
             obind (recordResponse p (tc_tcpFramed c) t) (\<lambda>t. Ret ((packet, n, err), w, t)))
           else Ret ((packet, n, err), w, t)))"

definition tracking_WriteTo ::
  "('w, 'a) trackingConn \<Rightarrow> packet \<Rightarrow> 'a \<Rightarrow> 'w \<times> dnsTracker \<Rightarrow> ((nat \<times> string option) \<times> 'w \<times> dnsTracker) outcome" where
  "tracking_WriteTo c packet addr s =
     (case s of (w, t) \<Rightarrow>
        obind (recordRequest packet False t) (\<lambda>t.
          case conn_WriteTo (tc_Conn c) packet addr w of (res, w) \<Rightarrow> Ret (res, w, t)))"

definition tracking_ReadFrom ::
  "('w, 'a) trackingConn \<Rightarrow> packet \<Rightarrow> 'w \<times> dnsTracker \<Rightarrow>
     ((packet \<times> nat \<times> 'a \<times> string option) \<times> 'w \<times> dnsTracker) outcome" where
  "tracking_ReadFrom c packet s =
     (case s of (w, t) \<Rightarrow>
        case conn_ReadFrom (tc_Conn c) packet w of ((packet, n, addr, err), w) \<Rightarrow>
          (if n > 0 then
             obind (slice_bytes packet 0 n) (\<lambda>p.
             obind (recordResponse p False t) (\<lambda>t. Ret ((packet, n, addr, err), w, t)))
           else Ret ((packet, n, addr, err), w, t)))"

text \<open>A read reports no more bytes than its buffer holds, as \<open>io.Reader\<close> documents.\<close>

definition reader_contract :: "('w, 'a) conn \<Rightarrow> bool" where
  "reader_contract c \<longleftrightarrow>
     (\<forall>b w b' n err w'. conn_Read c b w = ((b', n, err), w') \<longrightarrow> n \<le> length b') \<and>
     (\<forall>b w b' n a err w'. conn_ReadFrom c b w = ((b', n, a, err), w') \<longrightarrow> n \<le> length b')"

lemma slice_prefix: "n \<le> length p \<Longrightarrow> slice_bytes p 0 n = Ret (take n p)"
  unfolding slice_bytes_def by (subst if_P) simp_all

lemma recordRequest_effect: "recordRequest p framed t = Ret (effect_of (Request_packet p framed) t)"
  using record_one_effect [of "Request_packet p framed"] by simp

lemma recordResponse_effect: "recordResponse p framed t = Ret (effect_of (Response_packet p framed) t)"
  using record_one_effect [of "Response_packet p framed"] by simp

text \<open>
  The recording connections are transparent: every write and read returns what the wrapped
  connection returns, leaves the network in the same state, never panics, and changes the tracker
  exactly as the packet that was written or the bytes that were read.
\<close>

theorem tracking_transparent:
  assumes "reader_contract (tc_Conn c)"
  shows "tracking_Write c p (w, t) = (case conn_Write (tc_Conn c) p w of (res, w') \<Rightarrow>
      Ret (res, w', effect_of (Request_packet p (tc_tcpFramed c)) t)) \<and>
    tracking_WriteTo c p addr (w, t) = (case conn_WriteTo (tc_Conn c) p addr w of (res, w') \<Rightarrow>
      Ret (res, w', effect_of (Request_packet p False) t)) \<and>
    tracking_Read c p (w, t) = (case conn_Read (tc_Conn c) p w of ((b, n, err), w') \<Rightarrow>
      Ret ((b, n, err), w', if n = 0 then t else effect_of (Response_packet (take n b) (tc_tcpFramed c)) t)) \<and>
    tracking_ReadFrom c p (w, t) = (case conn_ReadFrom (tc_Conn c) p w of ((b, n, a, err), w') \<Rightarrow>
      Ret ((b, n, a, err), w', if n = 0 then t else effect_of (Response_packet (take n b) False) t))"
proof (intro conjI)
  show "tracking_Write c p (w, t) = (case conn_Write (tc_Conn c) p w of (res, w') \<Rightarrow>
      Ret (res, w', effect_of (Request_packet p (tc_tcpFramed c)) t))"
    unfolding tracking_Write_def recordRequest_effect by simp
  show "tracking_WriteTo c p addr (w, t) = (case conn_WriteTo (tc_Conn c) p addr w of (res, w') \<Rightarrow>
      Ret (res, w', effect_of (Request_packet p False) t))"
    unfolding tracking_WriteTo_def recordRequest_effect by simp
  obtain b n err w1 where r: "conn_Read (tc_Conn c) p w = ((b, n, err), w1)"
    by (cases "conn_Read (tc_Conn c) p w") auto
  with assms have n: "n \<le> length b" unfolding reader_contract_def by blast
  show "tracking_Read c p (w, t) = (case conn_Read (tc_Conn c) p w of ((b, n, err), w') \<Rightarrow>
      Ret ((b, n, err), w', if n = 0 then t else effect_of (Response_packet (take n b) (tc_tcpFramed c)) t))"
    unfolding tracking_Read_def recordResponse_effect by (simp add: r slice_prefix [OF n])
  obtain b n a err w1 where r: "conn_ReadFrom (tc_Conn c) p w = ((b, n, a, err), w1)"
    by (cases "conn_ReadFrom (tc_Conn c) p w") auto
  with assms have n: "n \<le> length b" unfolding reader_contract_def by blast
  show "tracking_ReadFrom c p (w, t) = (case conn_ReadFrom (tc_Conn c) p w of ((b, n, a, err), w') \<Rightarrow>
      Ret ((b, n, a, err), w', if n = 0 then t else effect_of (Response_packet (take n b) False) t))"
    unfolding tracking_ReadFrom_def recordResponse_effect by (simp add: r slice_prefix [OF n])
qed

definition null_conn :: "(unit, unit) conn" where
  "null_conn = \<lparr>conn_Write = (\<lambda>p w. ((length p, None), w)), conn_Read = (\<lambda>b w. ((b, 0, Some ''EOF''), w)),
     conn_WriteTo = (\<lambda>p a w. ((length p, None), w)), conn_ReadFrom = (\<lambda>b w. ((b, 0, (), Some ''EOF''), w))\<rparr>"

theorem tracking_transparent_witness:
  "tracking_Read \<lparr>tc_Conn = null_conn, tc_tcpFramed = True\<rparr> [0] ((), newDNSTracker) =
     Ret (([0], 0, Some ''EOF''), (), newDNSTracker)"
proof -
  let ?c = "\<lparr>tc_Conn = null_conn, tc_tcpFramed = True\<rparr>"
  have "reader_contract (tc_Conn ?c)" by (simp add: reader_contract_def null_conn_def)
  from tracking_transparent [OF this, of "[0]" "()" newDNSTracker] show ?thesis by (simp add: null_conn_def)
qed

text \<open>
  C40. A TCP response whose length prefix and body arrive by two reads, as a stream reader takes
  them, is not recorded: the prefix alone announces bytes that are not there, and the body is
  taken for a frame whose length is the message's identifier. This holds for every non-empty
  response whose identifier exceeds its length.
\<close>

theorem split_frame_not_recorded:
  assumes "2 \<le> length m" and "length m < 65536" and "length m - 2 < unat (uint16_at m 0)"
  shows "record_all [Response_packet (take 2 (frame m)) True, Response_packet m True] t = Ret t"
proof -
  have "uint16_at (take 2 (frame m)) 0 = word_of_nat (length m)"
    by (simp add: uint16_at_def frame_def put_uint16_def)
  then have "unat (uint16_at (take 2 (frame m)) 0) = length m"
    using assms(2) by (simp add: unsigned_of_nat take_bit_nat_eq_self_iff)
  then have "parseDNSMessage (take 2 (frame m)) True = Ret None"
    using assms(1) by (subst parse_framed) (auto simp: frame_def put_uint16_def)
  moreover have "parseDNSMessage m True = Ret None"
    using assms(1,3) by (simp add: parse_framed)
  ultimately show ?thesis by (simp add: recordResponse_def)
qed

lemma uint16_at_put: "uint16_at (put_uint16 w @ rest) 0 = w"
  by (simp add: uint16_at_def put_uint16_def)

definition sample_response :: packet where
  "sample_response = encode_message 0xABCD 0x8180 1 [0, 1, 0, 0, 0, 0] [''api'', ''test''] 1 [0, 1]"

theorem split_frame_not_recorded_witness:
  "record_all [Response_packet (take 2 (frame sample_response)) True, Response_packet sample_response True]
     newDNSTracker = Ret newDNSTracker"
proof -
  have "length sample_response = 26"
    by (simp add: sample_response_def encode_message_def put_uint16_def)
  moreover have "uint16_at sample_response 0 = 0xABCD"
    unfolding sample_response_def encode_message_def by (rule uint16_at_put)
  ultimately show ?thesis using split_frame_not_recorded [of sample_response newDNSTracker] by simp
qed

definition sample_answer :: dnsMessage where
  "sample_answer =
     \<lparr>msg_name = ''api.test.'', msg_qtype = ''A'', msg_response = True, msg_rcode = ''NOERROR''\<rparr>"

lemma sample_response_parsed: "question_of sample_response False = Some sample_answer"
proof -
  have "parse_question sample_response = Ret (Some sample_answer)"
    unfolding sample_response_def
    by (subst parse_encode) (simp_all add: wire_name_def sample_answer_def dnsTypeName_def dnsRCodeName_def)
  then show ?thesis by (simp add: question_of_def parseDNSMessage_def)
qed

theorem tracker_totals_witness:
  "\<exists>t c. record_all [Response_packet sample_response False] newDNSTracker = Ret t \<and>
     tr_candidates t (candidate_key sample_answer) = Some c \<and>
     cs_responses c = (\<Sum>r \<in> dom (cs_rcodes c). the (cs_rcodes c r))"
proof -
  have "record_all [Response_packet sample_response False] newDNSTracker =
      Ret (add_response sample_answer newDNSTracker)"
    unfolding record_all_effect by (simp add: sample_response_parsed) (simp add: sample_answer_def)
  moreover obtain c where c: "tr_candidates (add_response sample_answer newDNSTracker) (candidate_key sample_answer) = Some c"
    by (simp add: add_response_def put_candidate_def Let_def)
  moreover from c have "c \<in> ran (tr_candidates (add_response sample_answer newDNSTracker))"
    by (auto simp: ran_def)
  ultimately show ?thesis
    using tracker_totals [of "[Response_packet sample_response False]"] by auto
qed

end
