(* ===== verification/Loadgen_Main.thy ===== *)
theory Loadgen_Main
  imports Prelude "HOL-Library.Word"
begin

text \<open>
  The start of \<open>docs/dns-demo/loadgen/main.go\<close> and its worker pool: the settings read from the
  environment, and the workers that take jobs from an unbuffered channel and count successes and
  failures, as a step relation. Lookups are events that succeed or fail; printing and timing are
  left out.
\<close>

section \<open>Settings\<close>

text \<open>
  \<open>strconv.Atoi\<close>: an optional sign and decimal digits, within the 64-bit range; None for an error.
\<close>

definition Atoi :: "string \<Rightarrow> int option" where
  "Atoi s =
     (case split_sign s of (neg, ds) \<Rightarrow>
        (if ds = [] \<or> \<not> list_all is_digit ds then None
         else
           (let v = (if neg then - int (digits_value ds) else int (digits_value ds))
            in if - (2 ^ 63) \<le> v \<and> v < 2 ^ 63 then Some v else None)))"

text \<open>A function that may end the process with a status.\<close>

datatype 'a exits = Continue 'a | Exit nat

primrec and_then :: "'a exits \<Rightarrow> ('a \<Rightarrow> 'b exits) \<Rightarrow> 'b exits" where
  "and_then (Continue x) f = f x"
| "and_then (Exit n) f = Exit n"

definition envString :: "(string \<Rightarrow> string) \<Rightarrow> string \<Rightarrow> string \<Rightarrow> string" where
  "envString Getenv name fallback = (let v = Getenv name in if v = [] then fallback else v)"

definition envPositiveInt :: "(string \<Rightarrow> string) \<Rightarrow> string \<Rightarrow> int \<Rightarrow> int exits" where
  "envPositiveInt Getenv name fallback =
     (let v = Getenv name
      in if v = [] then Continue fallback
         else
           (case Atoi v of
              None \<Rightarrow> Exit 2
            | Some parsed \<Rightarrow> (if parsed < 1 then Exit 2 else Continue parsed)))"

text \<open>\<open>time.Duration(n) * time.Second\<close>, in nanoseconds: a 64-bit product.\<close>

definition seconds :: "int \<Rightarrow> 64 word" where
  "seconds n = word_of_int n * 1000000000"

record settings =
  set_target :: string
  set_queries :: int
  set_concurrency :: int
  set_timeout :: "64 word"

definition read_settings :: "(string \<Rightarrow> string) \<Rightarrow> settings exits" where
  "read_settings Getenv =
     (let target = envString Getenv ''TARGET'' ''api.prod.external.test''
      in and_then (envPositiveInt Getenv ''QUERIES'' 250) (\<lambda>queries.
         and_then (envPositiveInt Getenv ''CONCURRENCY'' 1) (\<lambda>concurrency.
         and_then (envPositiveInt Getenv ''LOOKUP_TIMEOUT_SECONDS'' 2) (\<lambda>n.
           Continue \<lparr>set_target = target, set_queries = queries, set_concurrency = concurrency,
             set_timeout = seconds n\<rparr>))))"

section \<open>The workers\<close>

text \<open>A worker waits on the channel, does a lookup, or has returned.\<close>

datatype worker = Waiting | Working | Returned

record pool =
  unsent :: nat
  closed :: bool
  workers :: "worker list"
  successes :: "64 word"
  failures :: "64 word"

definition start_pool :: "nat \<Rightarrow> nat \<Rightarrow> pool" where
  "start_pool queries concurrency =
     \<lparr>unsent = queries, closed = False, workers = replicate concurrency Waiting,
      successes = 0, failures = 0\<rparr>"

text \<open>
  The channel is unbuffered: a job is handed over when a worker waits for one. The main goroutine
  closes the channel after the last job; a worker that waits on the closed channel returns.
\<close>

inductive pool_step :: "pool \<Rightarrow> pool \<Rightarrow> bool" where
  send: "0 < unsent s \<Longrightarrow> i < length (workers s) \<Longrightarrow> workers s ! i = Waiting \<Longrightarrow>
    pool_step s (s\<lparr>unsent := unsent s - 1, workers := (workers s)[i := Working]\<rparr>)"
| succeed: "i < length (workers s) \<Longrightarrow> workers s ! i = Working \<Longrightarrow>
    pool_step s (s\<lparr>workers := (workers s)[i := Waiting], successes := successes s + 1\<rparr>)"
| fail: "i < length (workers s) \<Longrightarrow> workers s ! i = Working \<Longrightarrow>
    pool_step s (s\<lparr>workers := (workers s)[i := Waiting], failures := failures s + 1\<rparr>)"
| close: "unsent s = 0 \<Longrightarrow> \<not> closed s \<Longrightarrow> pool_step s (s\<lparr>closed := True\<rparr>)"
| finish: "closed s \<Longrightarrow> i < length (workers s) \<Longrightarrow> workers s ! i = Waiting \<Longrightarrow>
    pool_step s (s\<lparr>workers := (workers s)[i := Returned]\<rparr>)"

inductive_cases pool_step_cases: "pool_step s s'"

text \<open>\<open>workers.Wait()\<close> returns in these states; the status the process ends with.\<close>

definition pool_done :: "pool \<Rightarrow> bool" where
  "pool_done s \<longleftrightarrow> closed s \<and> list_all (\<lambda>w. w = Returned) (workers s)"

definition exit_status :: "bool \<Rightarrow> pool \<Rightarrow> nat" where
  "exit_status encoded s = (if \<not> encoded then 1 else if failures s > 0 then 1 else 0)"

section \<open>What the settings promise\<close>

lemma Atoi_FormatUint: "Atoi (FormatUint n) = (if n < 2 ^ 63 then Some (int n) else None)"
  using FormatUint_digits [of n] split_sign_digits [of "FormatUint n"]
  by (auto simp: Atoi_def Let_def)

lemma envPositiveInt_cases:
  "envPositiveInt Getenv name fallback = Continue v \<longleftrightarrow>
     (Getenv name = [] \<and> v = fallback) \<or> (Getenv name \<noteq> [] \<and> Atoi (Getenv name) = Some v \<and> 1 \<le> v)"
  "envPositiveInt Getenv name fallback = Exit n \<longleftrightarrow>
     n = 2 \<and> Getenv name \<noteq> [] \<and> (\<forall>v. Atoi (Getenv name) = Some v \<longrightarrow> v < 1)"
  by (auto simp: envPositiveInt_def Let_def split: option.split)

text \<open>
  A positive setting is read back: the decimal text of every number from 1 to 2^63 - 1 is
  accepted with that value, larger ones and zero end the process with status 2, and an empty
  variable means the fallback.
\<close>

theorem envPositiveInt_roundtrip:
  assumes "Getenv name = FormatUint n"
  shows "envPositiveInt Getenv name fallback =
    (if 1 \<le> n \<and> n < 2 ^ 63 then Continue (int n) else Exit 2)"
  using FormatUint_digits [of n]
  by (auto simp: envPositiveInt_def Let_def assms Atoi_FormatUint)

theorem envPositiveInt_roundtrip_witness:
  "envPositiveInt (\<lambda>_. ''250'') ''QUERIES'' 1 = Continue 250"
proof -
  have "''250'' = FormatUint 250" by (simp add: FormatUint.simps digit_char_simps)
  then have "(\<lambda>_. ''250'') ''QUERIES'' = FormatUint 250" by simp
  from envPositiveInt_roundtrip [of "\<lambda>_. ''250''", OF this] show ?thesis by simp
qed

lemma Atoi_bound: "Atoi s = Some v \<Longrightarrow> v < 2 ^ 63"
  by (auto simp: Atoi_def Let_def split: prod.splits if_splits)

text \<open>
  Settings that are read leave a pool that can run: the number of queries and the number of
  workers are between 1 and 2^63 - 1.
\<close>

theorem read_settings_positive:
  assumes "read_settings Getenv = Continue s"
  shows "1 \<le> set_queries s \<and> set_queries s < 2 ^ 63 \<and> 1 \<le> set_concurrency s \<and> set_concurrency s < 2 ^ 63"
proof -
  have and_then_Continue: "and_then m f = Continue y \<longleftrightarrow> (\<exists>x. m = Continue x \<and> f x = Continue y)"
    for m :: "int exits" and f :: "int \<Rightarrow> settings exits" and y by (cases m) auto
  from assms obtain q c n where "envPositiveInt Getenv ''QUERIES'' 250 = Continue q"
    "envPositiveInt Getenv ''CONCURRENCY'' 1 = Continue c" "set_queries s = q" "set_concurrency s = c"
    by (auto simp: read_settings_def Let_def and_then_Continue)
  then show ?thesis using Atoi_bound by (auto simp: envPositiveInt_cases)
qed

theorem read_settings_positive_witness:
  "\<exists>s. read_settings (\<lambda>_. []) = Continue s \<and> set_queries s = 250 \<and> 1 \<le> set_concurrency s"
proof -
  obtain s where s: "read_settings (\<lambda>_. []) = Continue s" "set_queries s = 250"
    by (simp add: read_settings_def envPositiveInt_def Let_def)
  from read_settings_positive [OF s(1)] s show ?thesis by blast
qed

text \<open>
  The lookup timeout is exact up to 9223372036 seconds; an accepted setting above that wraps
  around, 9223372037 already to a negative timeout, with which every lookup fails at once.
\<close>

theorem timeout_wraps:
  "(\<forall>n. 1 \<le> n \<and> n \<le> 9223372036 \<longrightarrow> sint (seconds n) = n * 1000000000) \<and>
   envPositiveInt (\<lambda>_. ''9223372037'') ''LOOKUP_TIMEOUT_SECONDS'' 2 = Continue 9223372037 \<and>
   sint (seconds 9223372037) < 0"
proof (intro conjI allI impI)
  fix n :: int
  assume n: "1 \<le> n \<and> n \<le> 9223372036"
  have "seconds n = word_of_int (n * 1000000000)" by (simp add: seconds_def)
  then have "sint (seconds n) = signed_take_bit 63 (n * 1000000000)"
    by (simp only: signed_of_int) simp
  moreover have "- (2 ^ 63) \<le> n * 1000000000" "n * 1000000000 < 2 ^ 63" using n by simp_all
  ultimately show "sint (seconds n) = n * 1000000000"
    by (simp only: signed_take_bit_int_eq_self)
next
  have "''9223372037'' = FormatUint 9223372037" by (simp add: FormatUint.simps digit_char_simps)
  then have "Atoi ''9223372037'' = Some 9223372037" using Atoi_FormatUint [of 9223372037] by simp
  then show "envPositiveInt (\<lambda>_. ''9223372037'') ''LOOKUP_TIMEOUT_SECONDS'' 2 = Continue 9223372037"
    by (simp add: envPositiveInt_def)
  show "sint (seconds 9223372037) < 0" by (simp add: seconds_def)
qed

theorem timeout_wraps_witness: "sint (seconds 2) = 2000000000"
  using timeout_wraps by auto

section \<open>What the pool promises\<close>

definition num_in :: "worker \<Rightarrow> worker list \<Rightarrow> nat" where
  "num_in w ws = length (filter (\<lambda>x. x = w) ws)"

abbreviation in_state :: "worker \<Rightarrow> pool \<Rightarrow> nat" where
  "in_state w s \<equiv> num_in w (workers s)"

lemma filter_update:
  assumes "i < length xs" and "xs ! i = a" and "a \<noteq> b"
  shows "length (filter (\<lambda>x. x = w) (xs[i := b])) + (if w = a then 1 else 0) =
    length (filter (\<lambda>x. x = w) xs) + (if w = b then 1 else 0)"
  using assms
proof (induction xs arbitrary: i)
  case Nil
  then show ?case by simp
next
  case (Cons x xs)
  then show ?case by (cases i) auto
qed

lemma num_in_update:
  assumes "i < length ws" and "ws ! i = a" and "a \<noteq> b"
  shows "num_in w (ws[i := b]) =
    (if w = a then num_in w ws - 1 else if w = b then num_in w ws + 1 else num_in w ws)"
  using filter_update [OF assms, of w] assms(3) by (auto simp: num_in_def)

lemma num_in_pos: "i < length ws \<Longrightarrow> ws ! i = w \<Longrightarrow> 0 < num_in w ws"
  by (auto simp: num_in_def filter_empty_conv intro: nth_mem)

text \<open>
  The invariant: every job is unsent, with a worker, or counted; the channel is closed after the
  last job, and no worker returns before.
\<close>

definition pool_inv :: "nat \<Rightarrow> nat \<Rightarrow> pool \<Rightarrow> bool" where
  "pool_inv queries concurrency s \<longleftrightarrow>
     length (workers s) = concurrency \<and>
     successes s + failures s + of_nat (in_state Working s + unsent s) = of_nat queries \<and>
     in_state Working s + unsent s \<le> queries \<and>
     (closed s \<longrightarrow> unsent s = 0) \<and> (\<not> closed s \<longrightarrow> in_state Returned s = 0)"

lemma start_inv: "pool_inv queries concurrency (start_pool queries concurrency)"
  by (simp add: pool_inv_def start_pool_def num_in_def)

lemma step_inv:
  assumes "pool_step s s'" and "pool_inv q c s"
  shows "pool_inv q c s'"
  using assms(1)
proof cases
  case (send i)
  then show ?thesis
    using assms(2) num_in_pos [OF send(3,4)]
    by (auto simp: pool_inv_def num_in_update [OF send(3,4)] of_nat_diff)
next
  case (succeed i)
  have p: "0 < in_state Working s" using num_in_pos [OF succeed(2,3)] .
  then have "(of_nat (in_state Working s - 1) :: 64 word) = of_nat (in_state Working s) - 1" by (simp add: of_nat_diff)
  with succeed p show ?thesis
    using assms(2) by (auto simp: pool_inv_def num_in_update [OF succeed(2,3)] add.assoc)
next
  case (fail i)
  have p: "0 < in_state Working s" using num_in_pos [OF fail(2,3)] .
  then have "(of_nat (in_state Working s - 1) :: 64 word) = of_nat (in_state Working s) - 1" by (simp add: of_nat_diff)
  with fail p show ?thesis
    using assms(2) by (auto simp: pool_inv_def num_in_update [OF fail(2,3)] add.assoc)
next
  case close
  then show ?thesis using assms(2) by (auto simp: pool_inv_def)
next
  case (finish i)
  then show ?thesis
    using assms(2) by (auto simp: pool_inv_def num_in_update [OF finish(3,4)])
qed

lemma run_inv: "pool_step\<^sup>*\<^sup>* (start_pool q c) s \<Longrightarrow> pool_inv q c s"
  by (induction rule: rtranclp_induct) (auto intro: start_inv step_inv)

text \<open>Every step lowers this measure.\<close>

definition pool_measure :: "pool \<Rightarrow> nat" where
  "pool_measure s = 3 * unsent s + (if closed s then 0 else 1) + in_state Waiting s + 2 * in_state Working s"

lemma step_measure: "pool_step s s' \<Longrightarrow> pool_measure s' < pool_measure s"
proof (induction rule: pool_step.induct)
  case (send s i)
  with num_in_pos [OF send(2,3)] show ?case
    by (simp add: pool_measure_def num_in_update [OF send(2,3)])
next
  case (succeed i s)
  with num_in_pos [OF succeed(1,2)] show ?case
    by (simp add: pool_measure_def num_in_update [OF succeed(1,2)])
next
  case (fail i s)
  with num_in_pos [OF fail(1,2)] show ?case
    by (simp add: pool_measure_def num_in_update [OF fail(1,2)])
next
  case (close s)
  then show ?case by (simp add: pool_measure_def)
next
  case (finish s i)
  with num_in_pos [OF finish(2,3)] show ?case
    by (simp add: pool_measure_def num_in_update [OF finish(2,3)])
qed

lemma stuck_done:
  assumes inv: "pool_inv q c s" and "0 < c" and stuck: "\<And>s'. \<not> pool_step s s'"
  shows "pool_done s \<and> unsent s = 0 \<and> in_state Working s = 0"
proof -
  have nowork: "workers s ! i \<noteq> Working" if "i < length (workers s)" for i
    using stuck pool_step.succeed [OF that] by blast
  have "closed s"
  proof (rule ccontr)
    assume open_chan: "\<not> closed s"
    with inv have "in_state Returned s = 0" by (simp add: pool_inv_def)
    with num_in_pos [of 0 "workers s" Returned] inv assms(2) have "workers s ! 0 \<noteq> Returned"
      by (auto simp: pool_inv_def)
    with nowork [of 0] inv assms(2) have "workers s ! 0 = Waiting"
      by (cases "workers s ! 0") (auto simp: pool_inv_def)
    with stuck pool_step.send [of s 0] inv assms(2) have "unsent s = 0" by (auto simp: pool_inv_def)
    with stuck pool_step.close [of s] open_chan show False by blast
  qed
  moreover have "workers s ! i = Returned" if "i < length (workers s)" for i
    using nowork [OF that] stuck pool_step.finish [OF \<open>closed s\<close> that] by (cases "workers s ! i") auto
  moreover have "in_state Working s = 0"
    using nowork by (auto simp: num_in_def filter_empty_conv in_set_conv_nth)
  ultimately show ?thesis
    using inv by (auto simp: pool_done_def list_all_length pool_inv_def)
qed

text \<open>
  C10. The pool always finishes: with at least one worker no schedule of the workers runs forever,
  and a schedule can only stop when the channel is closed and every worker has returned. No state
  on the way is a deadlock.
\<close>

theorem pool_terminates:
  assumes "0 < concurrency"
  shows "(\<nexists>f. f 0 = start_pool queries concurrency \<and> (\<forall>i. pool_step (f i) (f (Suc i)))) \<and>
    (\<forall>s. pool_step\<^sup>*\<^sup>* (start_pool queries concurrency) s \<and> (\<nexists>s'. pool_step s s') \<longrightarrow> pool_done s)"
proof (intro conjI notI allI impI)
  assume "\<exists>f. f 0 = start_pool queries concurrency \<and> (\<forall>i. pool_step (f i) (f (Suc i)))"
  then obtain f where "\<And>i. pool_step (f i) (f (Suc i))" by blast
  then have "\<forall>i. (f (Suc i), f i) \<in> measure pool_measure" using step_measure by simp
  then show False using wf_measure [of pool_measure] unfolding wf_iff_no_infinite_down_chain by blast
next
  fix s
  assume "pool_step\<^sup>*\<^sup>* (start_pool queries concurrency) s \<and> (\<nexists>s'. pool_step s s')"
  then show "pool_done s" using stuck_done [OF run_inv assms] by blast
qed

lemma done_counts:
  assumes "pool_step\<^sup>*\<^sup>* (start_pool q c) s" and "pool_done s"
  shows "successes s + failures s = of_nat q"
proof -
  have inv: "pool_inv q c s" using assms(1) by (rule run_inv)
  have "in_state Working s = 0" "unsent s = 0"
    using assms(2) inv by (auto simp: pool_done_def num_in_def filter_empty_conv list_all_iff pool_inv_def)
  with inv show ?thesis by (simp add: pool_inv_def)
qed

lemma done_status:
  assumes "pool_step\<^sup>*\<^sup>* (start_pool q c) s" and "pool_done s" and "q < 2 ^ 64"
  shows "exit_status encoded s = 0 \<longleftrightarrow> encoded \<and> unat (successes s) = q"
proof -
  have sum: "successes s + failures s = of_nat q" by (rule done_counts [OF assms(1,2)])
  have q: "unat (of_nat q :: 64 word) = q"
    using assms(3) by (simp add: unsigned_of_nat take_bit_nat_eq_self_iff)
  have "failures s = 0 \<longleftrightarrow> unat (successes s) = q"
  proof
    assume "failures s = 0"
    with sum q show "unat (successes s) = q" by simp
  next
    assume "unat (successes s) = q"
    with q have "successes s = of_nat q" by (metis word_unat_eq_iff)
    with sum show "failures s = 0" by simp
  qed
  with sum show ?thesis by (auto simp: exit_status_def word_gt_0)
qed

text \<open>
  Every query is counted once: when the pool is done, successes and failures add up to the
  number of queries, and the process ends with status 0 exactly when the report was written and
  all of the queries succeeded.
\<close>

theorem pool_counts_every_query:
  assumes "pool_step\<^sup>*\<^sup>* (start_pool queries concurrency) s" and "pool_done s" and "queries < 2 ^ 64"
  shows "successes s + failures s = of_nat queries \<and>
    (exit_status encoded s = 0 \<longleftrightarrow> encoded \<and> unat (successes s) = queries)"
  using done_counts [OF assms(1,2)] done_status [OF assms] by blast

definition one_success :: pool where
  "one_success = \<lparr>unsent = 0, closed = True, workers = [Returned], successes = 1, failures = 0\<rparr>"

lemma one_success_run: "pool_step\<^sup>*\<^sup>* (start_pool 1 1) one_success"
proof -
  let ?s0 = "\<lparr>unsent = 1, closed = False, workers = [Waiting], successes = 0, failures = 0\<rparr>"
  let ?s1 = "\<lparr>unsent = 0, closed = False, workers = [Working], successes = 0, failures = 0\<rparr>"
  let ?s2 = "\<lparr>unsent = 0, closed = False, workers = [Waiting], successes = 1, failures = 0\<rparr>"
  let ?s3 = "\<lparr>unsent = 0, closed = True, workers = [Waiting], successes = 1, failures = 0\<rparr>"
  have "start_pool 1 1 = ?s0" by (simp add: start_pool_def)
  moreover have "pool_step ?s0 ?s1" using pool_step.send [of ?s0 0] by simp
  moreover have "pool_step ?s1 ?s2" using pool_step.succeed [of 0 ?s1] by simp
  moreover have "pool_step ?s2 ?s3" using pool_step.close [of ?s2] by simp
  moreover have "pool_step ?s3 one_success" using pool_step.finish [of ?s3 0] by (simp add: one_success_def)
  ultimately show ?thesis by (metis converse_rtranclp_into_rtranclp rtranclp.rtrancl_refl)
qed

theorem pool_terminates_witness:
  "pool_step\<^sup>*\<^sup>* (start_pool 1 1) one_success \<and> pool_done one_success \<and>
   (\<nexists>f. f 0 = start_pool 1 1 \<and> (\<forall>i. pool_step (f i) (f (Suc i))))"
proof -
  have "\<nexists>s'. pool_step one_success s'"
    by (auto simp: one_success_def elim: pool_step_cases)
  with pool_terminates [of 1 1] one_success_run show ?thesis by simp
qed

theorem pool_counts_every_query_witness:
  "pool_step\<^sup>*\<^sup>* (start_pool 1 1) one_success \<and> exit_status True one_success = 0"
proof -
  have d: "pool_done one_success" by (simp add: pool_done_def one_success_def)
  from pool_counts_every_query [OF one_success_run d, of True] one_success_run show ?thesis
    by (simp add: one_success_def)
qed

end
