(* ===== verification/Loadgen_System.thy ===== *)
theory Loadgen_System
  imports Loadgen_Tracker Loadgen_Main
begin

text \<open>
  The load generator as a whole, \<open>main\<close> of \<open>docs/dns-demo/loadgen/main.go\<close>: the settings, the
  worker pool with the tracker its connections write to, and the report. The lookups of the
  resolver are events: packets may pass at any time, also after a worker gave its lookup up, and
  in any interleaving with the workers. Time and the two figures computed from it are left out.
\<close>

section \<open>The program\<close>

record load =
  lo_pool :: pool
  lo_tracker :: dnsTracker

definition start_load :: "settings \<Rightarrow> load" where
  "start_load cfg =
     \<lparr>lo_pool = start_pool (nat (set_queries cfg)) (nat (set_concurrency cfg)), lo_tracker = newDNSTracker\<rparr>"

text \<open>A step of a worker or of the main goroutine, or a packet that passes a connection.\<close>

inductive load_steps :: "load \<Rightarrow> traffic list \<Rightarrow> load \<Rightarrow> bool" where
  stop: "load_steps s [] s"
| pool: "pool_step (lo_pool s) p \<Longrightarrow> load_steps (s\<lparr>lo_pool := p\<rparr>) es s' \<Longrightarrow> load_steps s es s'"
| packet: "record_one e (lo_tracker s) = Ret t \<Longrightarrow> load_steps (s\<lparr>lo_tracker := t\<rparr>) es s' \<Longrightarrow>
    load_steps s (e # es) s'"

record result =
  res_Target :: string
  res_Queries :: int
  res_Concurrency :: int
  res_Successes :: "64 word"
  res_Failures :: "64 word"
  res_DNSRequests :: "64 word"
  res_DNSResponses :: "64 word"
  res_NXDOMAINResponses :: "64 word"
  res_Candidates :: "dnsCandidateResult list"

definition summary :: "string list \<Rightarrow> settings \<Rightarrow> load \<Rightarrow> result outcome" where
  "summary order cfg s =
     obind (snapshot order (lo_tracker s)) (\<lambda>(dnsRequests, dnsResponses, nxdomainResponses, candidates).
       Ret \<lparr>res_Target = set_target cfg, res_Queries = set_queries cfg,
         res_Concurrency = set_concurrency cfg, res_Successes = successes (lo_pool s),
         res_Failures = failures (lo_pool s), res_DNSRequests = dnsRequests,
         res_DNSResponses = dnsResponses, res_NXDOMAINResponses = nxdomainResponses,
         res_Candidates = candidates\<rparr>)"

text \<open>
  The process, given the environment variables, whether \<open>/etc/resolv.conf\<close> can be read and
  whether the report can be encoded: the traffic, the outcome of the report and the status. The
  order is the one in which the run time visits the candidates.
\<close>

inductive load_main ::
  "(string \<Rightarrow> string) \<Rightarrow> bool \<Rightarrow> bool \<Rightarrow> traffic list \<Rightarrow> result outcome option \<Rightarrow> nat \<Rightarrow> bool" where
  bad_setting: "read_settings Getenv = Exit n \<Longrightarrow> load_main Getenv resolv encodes [] None n"
| no_resolv: "read_settings Getenv = Continue cfg \<Longrightarrow> load_main Getenv False encodes [] None 1"
| report: "read_settings Getenv = Continue cfg \<Longrightarrow> load_steps (start_load cfg) es s \<Longrightarrow>
    pool_done (lo_pool s) \<Longrightarrow> visits order (lo_tracker s) \<Longrightarrow>
    load_main Getenv True encodes es (Some (summary order cfg s)) (exit_status encodes (lo_pool s))"

inductive_cases load_main_report: "load_main Getenv resolv encodes es (Some r) n"

section \<open>The parts of a run\<close>

text \<open>Seen from the pool, packets do nothing; seen from the tracker, only the packets count.\<close>

lemma load_steps_parts:
  "load_steps s es s' \<Longrightarrow>
   pool_step\<^sup>*\<^sup>* (lo_pool s) (lo_pool s') \<and> record_all es (lo_tracker s) = Ret (lo_tracker s')"
  by (induction rule: load_steps.induct) (auto intro: converse_rtranclp_into_rtranclp)

lemma load_steps_tracker: "load_steps s es s' \<Longrightarrow> lo_tracker s' = fold effect_of es (lo_tracker s)"
  using load_steps_parts by (fastforce simp: record_all_effect)

text \<open>The packets a counter counts.\<close>

definition is_request :: "traffic \<Rightarrow> bool" where
  "is_request e = (case e of
     Request_packet p framed \<Rightarrow> (case question_of p framed of Some m \<Rightarrow> \<not> msg_response m | None \<Rightarrow> False)
   | Response_packet p framed \<Rightarrow> False)"

definition is_response :: "traffic \<Rightarrow> bool" where
  "is_response e = (case e of
     Request_packet p framed \<Rightarrow> False
   | Response_packet p framed \<Rightarrow> (case question_of p framed of Some m \<Rightarrow> msg_response m | None \<Rightarrow> False))"

definition is_nxdomain :: "traffic \<Rightarrow> bool" where
  "is_nxdomain e = (case e of
     Request_packet p framed \<Rightarrow> False
   | Response_packet p framed \<Rightarrow>
       (case question_of p framed of Some m \<Rightarrow> msg_response m \<and> msg_rcode m = ''NXDOMAIN'' | None \<Rightarrow> False))"

definition number :: "('a \<Rightarrow> bool) \<Rightarrow> 'a list \<Rightarrow> 64 word" where
  "number P es = of_nat (length (filter P es))"

lemma number_simps [simp]:
  "number P [] = 0" "number P (e # es) = (if P e then 1 else 0) + number P es"
  by (simp_all add: number_def)

lemma effect_counters:
  "tr_requests (effect_of e t) = tr_requests t + (if is_request e then 1 else 0)"
  "tr_responses (effect_of e t) = tr_responses t + (if is_response e then 1 else 0)"
  "tr_nxdomain (effect_of e t) = tr_nxdomain t + (if is_nxdomain e then 1 else 0)"
  by (cases e; simp add: is_request_def is_response_def is_nxdomain_def add_request_def add_response_def
      put_candidate_def Let_def split: option.split)+

lemma fold_counters:
  "tr_requests (fold effect_of es t) = tr_requests t + number is_request es"
  "tr_responses (fold effect_of es t) = tr_responses t + number is_response es"
  "tr_nxdomain (fold effect_of es t) = tr_nxdomain t + number is_nxdomain es"
  by (induction es arbitrary: t) (simp_all add: effect_counters)

lemma summary_value:
  assumes "load_steps (start_load cfg) es s" and "visits order (lo_tracker s)"
  shows "summary order cfg s = Ret
    \<lparr>res_Target = set_target cfg, res_Queries = set_queries cfg, res_Concurrency = set_concurrency cfg,
     res_Successes = successes (lo_pool s), res_Failures = failures (lo_pool s),
     res_DNSRequests = number is_request es, res_DNSResponses = number is_response es,
     res_NXDOMAINResponses = number is_nxdomain es, res_Candidates = entries order (lo_tracker s)\<rparr>"
proof -
  have t: "lo_tracker s = fold effect_of es newDNSTracker"
    using load_steps_tracker [OF assms(1)] by (simp add: start_load_def)
  have "sound_tracker (lo_tracker s)" unfolding t by (rule record_all_sound [OF new_sound])
  from snapshot_entries [OF this assms(2)] show ?thesis
    by (simp add: summary_def) (simp add: t fold_counters newDNSTracker_def)
qed

section \<open>What the report says\<close>

text \<open>
  C25. A run that gets to its report has not panicked, and the report adds up: successes and
  failures are the configured number of queries, each DNS counter is the number of packets of its
  kind that passed (modulo 2 to the 64), whatever the interleaving of workers and packets, and
  the process ends with status 0 exactly when the report was written and no query failed.
\<close>

theorem load_main_report_adds_up:
  assumes "load_main Getenv resolv encodes es (Some out) n"
  shows "\<exists>cfg r. read_settings Getenv = Continue cfg \<and> out = Ret r \<and>
    res_Successes r + res_Failures r = word_of_int (set_queries cfg) \<and>
    res_DNSRequests r = number is_request es \<and> res_DNSResponses r = number is_response es \<and>
    res_NXDOMAINResponses r = number is_nxdomain es \<and>
    (n = 0 \<longleftrightarrow> encodes \<and> unat (res_Successes r) = nat (set_queries cfg))"
proof -
  obtain cfg s order where cfg: "read_settings Getenv = Continue cfg" and steps: "load_steps (start_load cfg) es s"
    and d: "pool_done (lo_pool s)" and v: "visits order (lo_tracker s)"
    and out: "out = summary order cfg s" and n: "n = exit_status encodes (lo_pool s)"
    using assms by (auto elim: load_main_report)
  have q: "1 \<le> set_queries cfg" "set_queries cfg < 2 ^ 63" using read_settings_positive [OF cfg] by simp_all
  have run: "pool_step\<^sup>*\<^sup>* (start_pool (nat (set_queries cfg)) (nat (set_concurrency cfg))) (lo_pool s)"
    using load_steps_parts [OF steps] by (simp add: start_load_def)
  have sum: "successes (lo_pool s) + failures (lo_pool s) = word_of_int (set_queries cfg)"
    using done_counts [OF run d] q by (simp add: of_nat_nat)
  have "n = 0 \<longleftrightarrow> encodes \<and> unat (successes (lo_pool s)) = nat (set_queries cfg)"
    unfolding n using done_status [OF run d] q by simp
  then show ?thesis using cfg sum summary_value [OF steps v] out by auto
qed

text \<open>
  C24. The report does not depend on the schedule: two runs with the same environment in which the
  same packets passed, in any order and at any time, and in which equally many lookups succeeded,
  give the same report, including the order of the candidates, and the same status.
\<close>

theorem load_main_deterministic:
  assumes "load_main Getenv resolv encodes es (Some (Ret r)) n"
    and "load_main Getenv resolv encodes es' (Some (Ret r')) n'"
    and "mset es' = mset es" and "res_Successes r' = res_Successes r"
  shows "r' = r \<and> n' = n"
proof -
  obtain cfg s order where cfg: "read_settings Getenv = Continue cfg" and s: "load_steps (start_load cfg) es s"
      "pool_done (lo_pool s)" "visits order (lo_tracker s)" "Ret r = summary order cfg s"
      "n = exit_status encodes (lo_pool s)"
    using assms(1) by (auto elim: load_main_report)
  obtain s' order' where s': "load_steps (start_load cfg) es' s'"
      "pool_done (lo_pool s')" "visits order' (lo_tracker s')" "Ret r' = summary order' cfg s'"
      "n' = exit_status encodes (lo_pool s')"
    using assms(2) cfg by (auto elim: load_main_report)
  have t: "lo_tracker s' = lo_tracker s"
    using record_all_permuted [OF assms(3), of newDNSTracker] load_steps_parts [OF s(1)]
      load_steps_parts [OF s'(1)] by (simp add: start_load_def)
  have "sound_tracker (lo_tracker s)"
    using load_steps_tracker [OF s(1)] record_all_sound [OF new_sound] by (simp add: start_load_def)
  note order = entries_order [OF this s(3) s'(3) [unfolded t]]
  have run: "pool_step\<^sup>*\<^sup>* (start_pool (nat (set_queries cfg)) (nat (set_concurrency cfg))) (lo_pool z)"
    if "load_steps (start_load cfg) ds z" for ds z
    using load_steps_parts [OF that] by (simp add: start_load_def)
  have succ: "successes (lo_pool s') = successes (lo_pool s)"
    using assms(4) s(4) s'(4) summary_value [OF s(1,3)] summary_value [OF s'(1,3)] by simp
  then have fail: "failures (lo_pool s') = failures (lo_pool s)"
    using done_counts [OF run [OF s(1)] s(2)] done_counts [OF run [OF s'(1)] s'(2)] by (metis add_left_cancel)
  have num: "number P es' = number P es" for P
    using assms(3) by (metis mset_filter number_def size_mset)
  show ?thesis
    using s(4,5) s'(4,5) summary_value [OF s(1,3)] summary_value [OF s'(1,3)] succ fail num order t
    by (simp add: exit_status_def)
qed

section \<open>Instances\<close>

definition sample_Getenv :: "string \<Rightarrow> string" where
  "sample_Getenv name = (if name = ''TARGET'' then [] else ''1'')"

definition sample_settings :: settings where
  "sample_settings = \<lparr>set_target = ''api.prod.external.test'', set_queries = 1, set_concurrency = 1,
     set_timeout = seconds 1\<rparr>"

lemma sample_settings_read: "read_settings sample_Getenv = Continue sample_settings"
proof -
  have "Atoi ''1'' = Some 1"
    using Atoi_FormatUint [of 1] by (simp add: FormatUint.simps digit_char_simps)
  then show ?thesis
    by (simp add: read_settings_def sample_Getenv_def sample_settings_def envString_def envPositiveInt_def Let_def)
qed

lemma pool_run_steps:
  assumes "pool_step\<^sup>*\<^sup>* p p'" and "load_steps (s\<lparr>lo_pool := p'\<rparr>) es s'"
  shows "load_steps (s\<lparr>lo_pool := p\<rparr>) es s'"
  using assms
proof (induction rule: converse_rtranclp_induct)
  case base
  then show ?case .
next
  case (step p q)
  then show ?case using load_steps.pool [of "s\<lparr>lo_pool := p\<rparr>" q es s'] by simp
qed

lemma packets_steps: "load_steps s es (s\<lparr>lo_tracker := fold effect_of es (lo_tracker s)\<rparr>)"
proof (induction es arbitrary: s)
  case Nil
  show ?case using load_steps.stop [of s] by simp
next
  case (Cons e es)
  show ?case
    using load_steps.packet [OF record_one_effect Cons.IH [of "s\<lparr>lo_tracker := effect_of e (lo_tracker s)\<rparr>"]]
    by simp
qed

text \<open>A run with one successful query, whatever packets pass.\<close>

lemma sample_run: "\<exists>r. load_main sample_Getenv True True es (Some (Ret r)) 0 \<and> res_Successes r = 1"
proof -
  let ?t = "fold effect_of es newDNSTracker"
  let ?s = "\<lparr>lo_pool = one_success, lo_tracker = ?t\<rparr>"
  have "load_steps \<lparr>lo_pool = one_success, lo_tracker = newDNSTracker\<rparr> es ?s"
    using packets_steps [of "\<lparr>lo_pool = one_success, lo_tracker = newDNSTracker\<rparr>" es] by simp
  then have steps: "load_steps (start_load sample_settings) es ?s"
    using pool_run_steps [OF one_success_run, of "\<lparr>lo_pool = one_success, lo_tracker = newDNSTracker\<rparr>" es ?s]
    by (simp add: start_load_def sample_settings_def)
  have "finite (dom (tr_candidates ?t))"
    using record_all_sound [OF new_sound, of es] by (simp add: sound_tracker_def)
  from finite_distinct_list [OF this] obtain order where v: "visits order (lo_tracker ?s)"
    by (auto simp: visits_def)
  have d: "pool_done (lo_pool ?s)" by (simp add: pool_done_def one_success_def)
  have "exit_status True (lo_pool ?s) = 0" by (simp add: exit_status_def one_success_def)
  then show ?thesis
    using load_main.report [OF sample_settings_read steps d v, of True] summary_value [OF steps v]
    by (auto simp: one_success_def)
qed

theorem load_main_report_adds_up_witness:
  "\<exists>r. load_main sample_Getenv True True [Request_packet sample_query False] (Some (Ret r)) 0 \<and>
     res_Successes r + res_Failures r = 1 \<and>
     res_DNSRequests r = number is_request [Request_packet sample_query False]"
proof -
  obtain r where r: "load_main sample_Getenv True True [Request_packet sample_query False] (Some (Ret r)) 0"
    using sample_run by blast
  from load_main_report_adds_up [OF r] r sample_settings_read show ?thesis by (auto simp: sample_settings_def)
qed

theorem load_main_deterministic_witness:
  "\<exists>r. load_main sample_Getenv True True [Request_packet sample_query False, Response_packet [0] True] (Some (Ret r)) 0 \<and>
     load_main sample_Getenv True True [Response_packet [0] True, Request_packet sample_query False] (Some (Ret r)) 0"
proof -
  let ?es = "[Request_packet sample_query False, Response_packet [0] True]"
  let ?es' = "[Response_packet [0] True, Request_packet sample_query False]"
  obtain r where r: "load_main sample_Getenv True True ?es (Some (Ret r)) 0" "res_Successes r = 1"
    using sample_run by blast
  obtain r' where r': "load_main sample_Getenv True True ?es' (Some (Ret r')) 0" "res_Successes r' = 1"
    using sample_run by blast
  have "mset ?es' = mset ?es" by simp
  from load_main_deterministic [OF r(1) r'(1) this] r r' have "r' = r" by simp
  with r r' show ?thesis by blast
qed

end
