(* ===== verification/Go_Heap.thy ===== *)
theory Go_Heap
  imports DNSClass_Types
begin

text \<open>
  The objects of \<open>api/v1alpha1\<close> as Go lays them out: structs whose slice and pointer fields hold
  addresses of cells on a heap. The value of an object, in the types of the value model, is what
  one reads by following the addresses. The locale states what a deep copy promises: an equal
  value on fresh cells.
\<close>

section \<open>Structs and cells\<close>

type_synonym addr = nat

record fields_struct =
  fs_Nameservers :: "addr option"
  fs_ClusterDomain :: string

record config_struct =
  gs_Nameservers :: "addr option"
  gs_Searches :: "addr option"
  gs_Options :: "addr option"

record spec_struct =
  ss_AllowedNamespaces :: "addr option"
  ss_DisabledNamespaces :: "addr option"
  ss_AllowedDNSPolicies :: "addr option"
  ss_DNSPolicy :: DNSPolicy_t
  ss_DNSConfig :: "addr option"

record status_struct =
  ts_Conditions :: "addr option"
  ts_State :: string
  ts_DiscoveredFields :: "addr option"

text \<open>The metadata of objects (\<open>'m\<close>) and of lists (\<open>'k\<close>) belong to the library.\<close>

record 'm class_struct =
  os_TypeMeta :: "string \<times> string"
  os_ObjectMeta :: 'm
  os_Spec :: spec_struct
  os_Status :: status_struct

record 'k list_struct =
  ls_TypeMeta :: "string \<times> string"
  ls_ListMeta :: 'k
  ls_Items :: "addr option"

datatype ('m, 'k, 'l) cell =
  StringsCell "string list" | OptionsCell "PodDNSConfigOption list"
| ConditionsCell "Condition list" | ConfigCell config_struct | FieldsCell fields_struct
| SpecCell spec_struct | StatusCell status_struct | ClassCell "'m class_struct"
| ClassesCell "'m class_struct list" | ListCell "'k list_struct" | LibraryCell 'l

record ('m, 'k, 'l) heap =
  cells :: "addr \<rightharpoonup> ('m, 'k, 'l) cell"
  next_addr :: addr

definition good :: "('m, 'k, 'l) heap \<Rightarrow> bool" where
  "good h \<longleftrightarrow> (\<forall>p. next_addr h \<le> p \<longrightarrow> cells h p = None)"

definition alloc :: "('m, 'k, 'l) cell \<Rightarrow> ('m, 'k, 'l) heap \<Rightarrow> addr \<times> ('m, 'k, 'l) heap" where
  "alloc c h = (next_addr h, h\<lparr>cells := (cells h)(next_addr h \<mapsto> c), next_addr := next_addr h + 1\<rparr>)"

definition store :: "addr \<Rightarrow> ('m, 'k, 'l) cell \<Rightarrow> ('m, 'k, 'l) heap \<Rightarrow> ('m, 'k, 'l) heap" where
  "store p c h = h\<lparr>cells := (cells h)(p \<mapsto> c)\<rparr>"

text \<open>Go's memory is typed: an address of a type holds a cell of that type.\<close>

definition strings_at :: "('m, 'k, 'l) heap \<Rightarrow> addr \<Rightarrow> string list" where
  "strings_at h p = (case cells h p of Some (StringsCell xs) \<Rightarrow> xs | _ \<Rightarrow> [])"

definition options_at :: "('m, 'k, 'l) heap \<Rightarrow> addr \<Rightarrow> PodDNSConfigOption list" where
  "options_at h p = (case cells h p of Some (OptionsCell xs) \<Rightarrow> xs | _ \<Rightarrow> [])"

definition conditions_at :: "('m, 'k, 'l) heap \<Rightarrow> addr \<Rightarrow> Condition list" where
  "conditions_at h p = (case cells h p of Some (ConditionsCell xs) \<Rightarrow> xs | _ \<Rightarrow> [])"

definition zero_config :: config_struct where
  "zero_config = \<lparr>gs_Nameservers = None, gs_Searches = None, gs_Options = None\<rparr>"

definition config_at :: "('m, 'k, 'l) heap \<Rightarrow> addr \<Rightarrow> config_struct" where
  "config_at h p = (case cells h p of Some (ConfigCell c) \<Rightarrow> c | _ \<Rightarrow> zero_config)"

definition zero_fields :: fields_struct where
  "zero_fields = \<lparr>fs_Nameservers = None, fs_ClusterDomain = []\<rparr>"

definition fields_at :: "('m, 'k, 'l) heap \<Rightarrow> addr \<Rightarrow> fields_struct" where
  "fields_at h p = (case cells h p of Some (FieldsCell c) \<Rightarrow> c | _ \<Rightarrow> zero_fields)"

definition zero_spec :: spec_struct where
  "zero_spec = \<lparr>ss_AllowedNamespaces = None, ss_DisabledNamespaces = None, ss_AllowedDNSPolicies = None,
     ss_DNSPolicy = [], ss_DNSConfig = None\<rparr>"

definition spec_at :: "('m, 'k, 'l) heap \<Rightarrow> addr \<Rightarrow> spec_struct" where
  "spec_at h p = (case cells h p of Some (SpecCell c) \<Rightarrow> c | _ \<Rightarrow> zero_spec)"

definition zero_status :: status_struct where
  "zero_status = \<lparr>ts_Conditions = None, ts_State = [], ts_DiscoveredFields = None\<rparr>"

definition status_at :: "('m, 'k, 'l) heap \<Rightarrow> addr \<Rightarrow> status_struct" where
  "status_at h p = (case cells h p of Some (StatusCell c) \<Rightarrow> c | _ \<Rightarrow> zero_status)"

definition zero_class :: "'m \<Rightarrow> 'm class_struct" where
  "zero_class meta = \<lparr>os_TypeMeta = ([], []), os_ObjectMeta = meta, os_Spec = zero_spec, os_Status = zero_status\<rparr>"

definition class_at :: "'m \<Rightarrow> ('m, 'k, 'l) heap \<Rightarrow> addr \<Rightarrow> 'm class_struct" where
  "class_at meta h p = (case cells h p of Some (ClassCell c) \<Rightarrow> c | _ \<Rightarrow> zero_class meta)"

definition classes_at :: "('m, 'k, 'l) heap \<Rightarrow> addr \<Rightarrow> 'm class_struct list" where
  "classes_at h p = (case cells h p of Some (ClassesCell cs) \<Rightarrow> cs | _ \<Rightarrow> [])"

definition zero_list :: "'k \<Rightarrow> 'k list_struct" where
  "zero_list meta = \<lparr>ls_TypeMeta = ([], []), ls_ListMeta = meta, ls_Items = None\<rparr>"

definition list_at :: "'k \<Rightarrow> ('m, 'k, 'l) heap \<Rightarrow> addr \<Rightarrow> 'k list_struct" where
  "list_at meta h p = (case cells h p of Some (ListCell c) \<Rightarrow> c | _ \<Rightarrow> zero_list meta)"

section \<open>Cells of one type\<close>

locale cell_type =
  fixes mk :: "'a \<Rightarrow> ('m, 'k, 'l) cell" and rd :: "('m, 'k, 'l) heap \<Rightarrow> addr \<Rightarrow> 'a"
  assumes rd_mk: "cells h p = Some (mk x) \<Longrightarrow> rd h p = x"
    and rd_local: "cells h' p = cells h p \<Longrightarrow> rd h' p = rd h p"

interpretation strings_cell: cell_type StringsCell strings_at
  by unfold_locales (simp_all add: strings_at_def)

interpretation conditions_cell: cell_type ConditionsCell conditions_at
  by unfold_locales (simp_all add: conditions_at_def)

interpretation options_cell: cell_type OptionsCell options_at
  by unfold_locales (simp_all add: options_at_def)

interpretation config_cell: cell_type ConfigCell config_at
  by unfold_locales (simp_all add: config_at_def)

interpretation fields_cell: cell_type FieldsCell fields_at
  by unfold_locales (simp_all add: fields_at_def)

interpretation spec_cell: cell_type SpecCell spec_at
  by unfold_locales (simp_all add: spec_at_def)

interpretation status_cell: cell_type StatusCell status_at
  by unfold_locales (simp_all add: status_at_def)

interpretation class_cell: cell_type ClassCell "class_at meta" for meta
  by unfold_locales (simp_all add: class_at_def)

interpretation classes_cell: cell_type ClassesCell classes_at
  by unfold_locales (simp_all add: classes_at_def)

interpretation list_cell: cell_type ListCell "list_at meta" for meta
  by unfold_locales (simp_all add: list_at_def)

lemmas cell_reads [simp] =
  strings_cell.rd_mk conditions_cell.rd_mk options_cell.rd_mk config_cell.rd_mk fields_cell.rd_mk
  spec_cell.rd_mk status_cell.rd_mk class_cell.rd_mk classes_cell.rd_mk list_cell.rd_mk

section \<open>Values and the cells they live on\<close>

text \<open>The value behind a pointer or a slice, and the cells it occupies.\<close>

definition ptr_val ::
  "(('m, 'k, 'l) heap \<Rightarrow> addr \<Rightarrow> 'a) \<Rightarrow> (('m, 'k, 'l) heap \<Rightarrow> 'a \<Rightarrow> 'v) \<Rightarrow>
   ('m, 'k, 'l) heap \<Rightarrow> addr option \<Rightarrow> 'v option" where
  "ptr_val rd val h a = map_option (\<lambda>p. val h (rd h p)) a"

definition ptr_reach ::
  "(('m, 'k, 'l) heap \<Rightarrow> addr \<Rightarrow> 'a) \<Rightarrow> (('m, 'k, 'l) heap \<Rightarrow> 'a \<Rightarrow> addr set) \<Rightarrow>
   ('m, 'k, 'l) heap \<Rightarrow> addr option \<Rightarrow> addr set" where
  "ptr_reach rd reach h a = (case a of None \<Rightarrow> {} | Some p \<Rightarrow> insert p (reach h (rd h p)))"

definition items_val ::
  "(('m, 'k, 'l) heap \<Rightarrow> 'a \<Rightarrow> 'v) \<Rightarrow> ('m, 'k, 'l) heap \<Rightarrow> 'a list \<Rightarrow> 'v list" where
  "items_val val h xs = map (val h) xs"

definition items_reach ::
  "(('m, 'k, 'l) heap \<Rightarrow> 'a \<Rightarrow> addr set) \<Rightarrow> ('m, 'k, 'l) heap \<Rightarrow> 'a list \<Rightarrow> addr set" where
  "items_reach reach h xs = (\<Union>x \<in> set xs. reach h x)"

text \<open>A value without pointers.\<close>

definition plain_val :: "('m, 'k, 'l) heap \<Rightarrow> 'a \<Rightarrow> 'a" where
  "plain_val h x = x"

definition plain_reach :: "('m, 'k, 'l) heap \<Rightarrow> 'a \<Rightarrow> addr set" where
  "plain_reach h x = {}"

abbreviation strings_val :: "('m, 'k, 'l) heap \<Rightarrow> addr option \<Rightarrow> string slice" where
  "strings_val \<equiv> ptr_val strings_at plain_val"

abbreviation strings_reach :: "('m, 'k, 'l) heap \<Rightarrow> addr option \<Rightarrow> addr set" where
  "strings_reach \<equiv> ptr_reach strings_at plain_reach"

definition config_val :: "('m, 'k, 'l) heap \<Rightarrow> config_struct \<Rightarrow> PodDNSConfig" where
  "config_val h c =
     \<lparr>Nameservers = strings_val h (gs_Nameservers c), Searches = strings_val h (gs_Searches c),
      Options = ptr_val options_at plain_val h (gs_Options c)\<rparr>"

definition config_reach :: "('m, 'k, 'l) heap \<Rightarrow> config_struct \<Rightarrow> addr set" where
  "config_reach h c =
     strings_reach h (gs_Nameservers c) \<union> strings_reach h (gs_Searches c)
     \<union> ptr_reach options_at plain_reach h (gs_Options c)"

abbreviation config_ptr_val :: "('m, 'k, 'l) heap \<Rightarrow> addr option \<Rightarrow> PodDNSConfig option" where
  "config_ptr_val \<equiv> ptr_val config_at config_val"

abbreviation config_ptr_reach :: "('m, 'k, 'l) heap \<Rightarrow> addr option \<Rightarrow> addr set" where
  "config_ptr_reach \<equiv> ptr_reach config_at config_reach"

definition fields_val :: "('m, 'k, 'l) heap \<Rightarrow> fields_struct \<Rightarrow> DiscoveredFields" where
  "fields_val h f = \<lparr>df_Nameservers = strings_val h (fs_Nameservers f), df_ClusterDomain = fs_ClusterDomain f\<rparr>"

definition fields_reach :: "('m, 'k, 'l) heap \<Rightarrow> fields_struct \<Rightarrow> addr set" where
  "fields_reach h f = strings_reach h (fs_Nameservers f)"

abbreviation fields_ptr_val :: "('m, 'k, 'l) heap \<Rightarrow> addr option \<Rightarrow> DiscoveredFields option" where
  "fields_ptr_val \<equiv> ptr_val fields_at fields_val"

abbreviation fields_ptr_reach :: "('m, 'k, 'l) heap \<Rightarrow> addr option \<Rightarrow> addr set" where
  "fields_ptr_reach \<equiv> ptr_reach fields_at fields_reach"

definition spec_val :: "('m, 'k, 'l) heap \<Rightarrow> spec_struct \<Rightarrow> DNSClassSpec" where
  "spec_val h s =
     \<lparr>AllowedNamespaces = strings_val h (ss_AllowedNamespaces s),
      DisabledNamespaces = strings_val h (ss_DisabledNamespaces s),
      AllowedDNSPolicies = strings_val h (ss_AllowedDNSPolicies s),
      DNSPolicy = ss_DNSPolicy s, DNSConfig = config_ptr_val h (ss_DNSConfig s)\<rparr>"

definition spec_reach :: "('m, 'k, 'l) heap \<Rightarrow> spec_struct \<Rightarrow> addr set" where
  "spec_reach h s =
     strings_reach h (ss_AllowedNamespaces s) \<union> strings_reach h (ss_DisabledNamespaces s)
     \<union> strings_reach h (ss_AllowedDNSPolicies s) \<union> config_ptr_reach h (ss_DNSConfig s)"

abbreviation conditions_val :: "('m, 'k, 'l) heap \<Rightarrow> addr option \<Rightarrow> Condition slice" where
  "conditions_val \<equiv> ptr_val conditions_at (items_val plain_val)"

abbreviation conditions_reach :: "('m, 'k, 'l) heap \<Rightarrow> addr option \<Rightarrow> addr set" where
  "conditions_reach \<equiv> ptr_reach conditions_at (items_reach plain_reach)"

definition status_val :: "('m, 'k, 'l) heap \<Rightarrow> status_struct \<Rightarrow> DNSClassStatus" where
  "status_val h s =
     \<lparr>Conditions = elems (conditions_val h (ts_Conditions s)), State = ts_State s,
      st_DiscoveredFields = fields_ptr_val h (ts_DiscoveredFields s)\<rparr>"

definition status_reach :: "('m, 'k, 'l) heap \<Rightarrow> status_struct \<Rightarrow> addr set" where
  "status_reach h s = conditions_reach h (ts_Conditions s) \<union> fields_ptr_reach h (ts_DiscoveredFields s)"

section \<open>What a deep copy promises\<close>

text \<open>The heap after a copy: nothing that was there has changed.\<close>

definition extends :: "('m, 'k, 'l) heap \<Rightarrow> ('m, 'k, 'l) heap \<Rightarrow> bool" where
  "extends h h' \<longleftrightarrow> good h' \<and> cells h \<subseteq>\<^sub>m cells h'"

definition agree_on :: "addr set \<Rightarrow> ('m, 'k, 'l) heap \<Rightarrow> ('m, 'k, 'l) heap \<Rightarrow> bool" where
  "agree_on A h h' \<longleftrightarrow> (\<forall>p \<in> A. cells h' p = cells h p)"

locale object =
  fixes val :: "('m, 'k, 'l) heap \<Rightarrow> 'a \<Rightarrow> 'v"
    and reach :: "('m, 'k, 'l) heap \<Rightarrow> 'a \<Rightarrow> addr set"
  assumes val_local: "agree_on (reach h x) h h' \<Longrightarrow> val h' x = val h x"
    and reach_local: "agree_on (reach h x) h h' \<Longrightarrow> reach h' x = reach h x"

locale deepcopy = object val reach
  for val :: "('m, 'k, 'l) heap \<Rightarrow> 'a \<Rightarrow> 'v" and reach :: "('m, 'k, 'l) heap \<Rightarrow> 'a \<Rightarrow> addr set" +
  fixes copy :: "('m, 'k, 'l) heap \<Rightarrow> 'a \<Rightarrow> 'a \<times> ('m, 'k, 'l) heap"
  assumes copy_extends: "good h \<Longrightarrow> reach h x \<subseteq> dom (cells h) \<Longrightarrow> copy h x = (y, h') \<Longrightarrow> extends h h'"
    and copy_val: "good h \<Longrightarrow> reach h x \<subseteq> dom (cells h) \<Longrightarrow> copy h x = (y, h') \<Longrightarrow> val h' y = val h x"
    and copy_fresh: "good h \<Longrightarrow> reach h x \<subseteq> dom (cells h) \<Longrightarrow> copy h x = (y, h') \<Longrightarrow>
      reach h' y \<subseteq> dom (cells h') - dom (cells h)"

lemma extends_refl: "good h \<Longrightarrow> extends h h"
  by (simp add: extends_def)

lemma extends_trans: "extends h h1 \<Longrightarrow> extends h1 h2 \<Longrightarrow> extends h h2"
  by (auto simp: extends_def map_le_def) (metis domI)

lemma extends_dom: "extends h h' \<Longrightarrow> dom (cells h) \<subseteq> dom (cells h')"
  by (simp add: extends_def map_le_implies_dom_le)

lemma extends_agree: "extends h h' \<Longrightarrow> A \<subseteq> dom (cells h) \<Longrightarrow> agree_on A h h'"
  unfolding extends_def map_le_def agree_on_def by (metis subsetD)

context object
begin

lemma kept:
  assumes "extends h h'" and "reach h x \<subseteq> dom (cells h)"
  shows "val h' x = val h x" "reach h' x = reach h x" "reach h' x \<subseteq> dom (cells h')"
  using extends_agree [OF assms] val_local reach_local extends_dom [OF assms(1)] assms(2) by auto

end

context deepcopy
begin

lemma copy_disjoint:
  assumes "good h" and "reach h x \<subseteq> dom (cells h)" and "copy h x = (y, h')"
  shows "reach h' y \<inter> reach h' x = {}"
  using kept(2) [OF copy_extends [OF assms] assms(2)] copy_fresh [OF assms] assms(2) by blast

text \<open>Writes to the cells of the copy do not reach the original, and the other way round.\<close>

lemma original_unchanged:
  assumes "good h" and "reach h x \<subseteq> dom (cells h)" and "copy h x = (y, h')"
    and "\<And>p. p \<notin> reach h' y \<Longrightarrow> cells h'' p = cells h' p"
  shows "val h'' x = val h x"
proof -
  have e: "extends h h'" using assms(1-3) by (rule copy_extends)
  have "agree_on (reach h x) h h''"
    using extends_agree [OF e assms(2)] copy_fresh [OF assms(1-3)] assms(2,4)
    unfolding agree_on_def by (metis DiffD2 subset_iff)
  then show ?thesis by (rule val_local)
qed

lemma copy_unchanged:
  assumes "good h" and "reach h x \<subseteq> dom (cells h)" and "copy h x = (y, h')"
    and "\<And>p. p \<notin> dom (cells h) \<Longrightarrow> cells h'' p = cells h' p"
  shows "val h'' y = val h x"
proof -
  have "agree_on (reach h' y) h' h''"
    using copy_fresh [OF assms(1-3)] assms(4) unfolding agree_on_def by blast
  then show ?thesis using val_local copy_val [OF assms(1-3)] by simp
qed

end

section \<open>Chains of copies\<close>

text \<open>Since the heap \<open>h0\<close>, a copy \<open>y\<close> of \<open>x\<close> has been made on cells that did not exist then.\<close>

definition copied ::
  "(('m, 'k, 'l) heap \<Rightarrow> 'a \<Rightarrow> 'v) \<Rightarrow> (('m, 'k, 'l) heap \<Rightarrow> 'a \<Rightarrow> addr set) \<Rightarrow>
   ('m, 'k, 'l) heap \<Rightarrow> 'a \<Rightarrow> ('m, 'k, 'l) heap \<Rightarrow> 'a \<Rightarrow> bool" where
  "copied val reach h0 x h y \<longleftrightarrow>
     val h y = val h0 x \<and> reach h y \<subseteq> dom (cells h) - dom (cells h0)"

lemma extends_good: "extends h h' \<Longrightarrow> good h'"
  by (simp add: extends_def)

lemma extends_alloc:
  assumes "good h" and "alloc c h = (q, h')"
  shows "extends h h'" "q \<notin> dom (cells h)" "cells h' q = Some c"
  using assms by (auto simp: alloc_def good_def extends_def map_le_def)

lemma extends_store:
  assumes "extends h h'" and "q \<in> dom (cells h')" and "q \<notin> dom (cells h)"
  shows "extends h (store q c h')"
  using assms by (auto simp: extends_def store_def good_def map_le_def)

lemma cells_store [simp]: "cells (store q c h) p = (if p = q then Some c else cells h p)"
  by (simp add: store_def)

lemma dom_store [simp]: "dom (cells (store q c h)) = insert q (dom (cells h))"
  by (simp add: store_def)

lemma agree_on_Un [simp]: "agree_on (A \<union> B) h h' \<longleftrightarrow> agree_on A h h' \<and> agree_on B h h'"
  by (auto simp: agree_on_def)

lemma agree_on_empty [simp]: "agree_on {} h h'"
  by (simp add: agree_on_def)

lemma agree_store: "q \<notin> A \<Longrightarrow> agree_on A h (store q c h)"
  by (auto simp: agree_on_def)

context object
begin

lemma copied_kept:
  assumes "copied val reach h0 x h y" and "extends h h'"
  shows "copied val reach h0 x h' y"
proof -
  have r: "reach h y \<subseteq> dom (cells h)" using assms(1) by (auto simp: copied_def)
  show ?thesis
    using assms kept [OF assms(2) r] extends_dom [OF assms(2)] by (auto simp: copied_def)
qed

lemma copied_store:
  assumes "copied val reach h0 x h y" and "q \<notin> reach h y"
  shows "copied val reach h0 x (store q c h) y"
  using assms val_local [OF agree_store [OF assms(2)]] reach_local [OF agree_store [OF assms(2)]]
  by (auto simp: copied_def)

end

context deepcopy
begin

lemma copy_step:
  assumes "extends h0 h" and "reach h0 x \<subseteq> dom (cells h0)" and "copy h x = (y, h')"
  shows "extends h h'" "extends h0 h'" "copied val reach h0 x h' y"
    "reach h' y \<subseteq> dom (cells h') - dom (cells h)"
proof -
  note g = extends_good [OF assms(1)] and k = kept [OF assms(1,2)]
  show e: "extends h h'" using copy_extends [OF g k(3) assms(3)] .
  show "extends h0 h'" using assms(1) e by (rule extends_trans)
  show f: "reach h' y \<subseteq> dom (cells h') - dom (cells h)" using copy_fresh [OF g k(3) assms(3)] .
  show "copied val reach h0 x h' y"
    using copy_val [OF g k(3) assms(3)] k(1) f extends_dom [OF assms(1)]
    unfolding copied_def by (intro conjI) (simp, blast)
qed

end

end
