(* ===== verification/Deep_Copy.thy ===== *)
theory Deep_Copy
  imports Go_Heap
begin

text \<open>
  The generated deep copies of \<open>api/v1alpha1/zz_generated.deepcopy.go\<close> on the heap of
  \<open>Go_Heap\<close>. A \<open>DeepCopyInto\<close> takes the struct it reads and yields the struct it leaves in
  \<open>*out\<close>, together with the heap: its callers always give it an \<open>out\<close> of its own. The copies of
  the library's types (\<open>PodDNSConfig\<close>, \<open>ObjectMeta\<close>, \<open>ListMeta\<close>, \<open>Condition\<close>) are parameters.
\<close>

section \<open>The pieces of the generated code\<close>

text \<open>Go's built-in \<open>copy\<close>: as many elements as the shorter slice has.\<close>

definition go_copy :: "'a list \<Rightarrow> 'a list \<Rightarrow> 'a list" where
  "go_copy dst src = take (length dst) src @ drop (length src) dst"

text \<open>\<open>if in.X != nil { *out = make(T, len(*in)); copy(*out, *in) }\<close> after \<open>*out = *in\<close>.\<close>

definition copy_slice ::
  "('a list \<Rightarrow> ('m, 'k, 'l) cell) \<Rightarrow> (('m, 'k, 'l) heap \<Rightarrow> addr \<Rightarrow> 'a list) \<Rightarrow> 'a \<Rightarrow>
   ('m, 'k, 'l) heap \<Rightarrow> addr option \<Rightarrow> addr option \<times> ('m, 'k, 'l) heap" where
  "copy_slice mk rd zero h a =
     (case a of
        None \<Rightarrow> (None, h)
      | Some p \<Rightarrow>
          (let (q, h) = alloc (mk (replicate (length (rd h p)) zero)) h;
               h = store q (mk (go_copy (rd h q) (rd h p))) h
           in (Some q, h)))"

text \<open>\<open>for i := range *in { (*in)[i].DeepCopyInto(&(*out)[i]) }\<close>, over the indices left.\<close>

primrec items_loop ::
  "('a list \<Rightarrow> ('m, 'k, 'l) cell) \<Rightarrow> (('m, 'k, 'l) heap \<Rightarrow> addr \<Rightarrow> 'a list) \<Rightarrow>
   (('m, 'k, 'l) heap \<Rightarrow> 'a \<Rightarrow> 'a \<times> ('m, 'k, 'l) heap) \<Rightarrow> addr \<Rightarrow> addr \<Rightarrow> nat list \<Rightarrow>
   ('m, 'k, 'l) heap \<Rightarrow> ('m, 'k, 'l) heap" where
  "items_loop mk rd copy p q [] h = h"
| "items_loop mk rd copy p q (i # is) h =
     (let (x, h) = copy h (rd h p ! i)
      in items_loop mk rd copy p q is (store q (mk ((rd h q)[i := x])) h))"

definition copy_items ::
  "('a list \<Rightarrow> ('m, 'k, 'l) cell) \<Rightarrow> (('m, 'k, 'l) heap \<Rightarrow> addr \<Rightarrow> 'a list) \<Rightarrow> 'a \<Rightarrow>
   (('m, 'k, 'l) heap \<Rightarrow> 'a \<Rightarrow> 'a \<times> ('m, 'k, 'l) heap) \<Rightarrow>
   ('m, 'k, 'l) heap \<Rightarrow> addr option \<Rightarrow> addr option \<times> ('m, 'k, 'l) heap" where
  "copy_items mk rd zero copy h a =
     (case a of
        None \<Rightarrow> (None, h)
      | Some p \<Rightarrow>
          (let (q, h) = alloc (mk (replicate (length (rd h p)) zero)) h
           in (Some q, items_loop mk rd copy p q [0..<length (rd h p)] h)))"

text \<open>
  A pointer: nil stays nil, otherwise \<open>out := new(T); in.DeepCopyInto(out)\<close>. This is both the
  body of every \<open>DeepCopy\<close> and the block for a field of a pointer type.
\<close>

definition new_copy ::
  "('a \<Rightarrow> ('m, 'k, 'l) cell) \<Rightarrow> (('m, 'k, 'l) heap \<Rightarrow> addr \<Rightarrow> 'a) \<Rightarrow> 'a \<Rightarrow>
   (('m, 'k, 'l) heap \<Rightarrow> 'a \<Rightarrow> 'a \<times> ('m, 'k, 'l) heap) \<Rightarrow>
   ('m, 'k, 'l) heap \<Rightarrow> addr option \<Rightarrow> addr option \<times> ('m, 'k, 'l) heap" where
  "new_copy mk rd zero copy h a =
     (case a of
        None \<Rightarrow> (None, h)
      | Some p \<Rightarrow>
          (let (q, h) = alloc (mk zero) h;
               (x, h) = copy h (rd h p)
           in (Some q, store q (mk x) h)))"

section \<open>The copies\<close>

record ('m, 'k, 'l) library =
  PodDNSConfig_DeepCopyInto :: "('m, 'k, 'l) heap \<Rightarrow> config_struct \<Rightarrow> config_struct \<times> ('m, 'k, 'l) heap"
  Condition_DeepCopyInto :: "('m, 'k, 'l) heap \<Rightarrow> Condition \<Rightarrow> Condition \<times> ('m, 'k, 'l) heap"
  ObjectMeta_DeepCopyInto :: "('m, 'k, 'l) heap \<Rightarrow> 'm \<Rightarrow> 'm \<times> ('m, 'k, 'l) heap"
  ListMeta_DeepCopyInto :: "('m, 'k, 'l) heap \<Rightarrow> 'k \<Rightarrow> 'k \<times> ('m, 'k, 'l) heap"
  zero_ObjectMeta :: 'm
  zero_ListMeta :: 'k

definition zero_Condition :: Condition where
  "zero_Condition = \<lparr>cond_Type = [], cond_Status = ConditionUnknown, cond_Message = [],
     cond_Reason = [], cond_LastTransitionTime = 0\<rparr>"

definition DiscoveredFields_DeepCopyInto ::
  "('m, 'k, 'l) heap \<Rightarrow> fields_struct \<Rightarrow> fields_struct \<times> ('m, 'k, 'l) heap" where
  "DiscoveredFields_DeepCopyInto h i =
     (let out = i;
          (a, h) = copy_slice StringsCell strings_at [] h (fs_Nameservers i);
          out = out\<lparr>fs_Nameservers := a\<rparr>
      in (out, h))"

definition DiscoveredFields_DeepCopy ::
  "('m, 'k, 'l) heap \<Rightarrow> addr option \<Rightarrow> addr option \<times> ('m, 'k, 'l) heap" where
  "DiscoveredFields_DeepCopy = new_copy FieldsCell fields_at zero_fields DiscoveredFields_DeepCopyInto"

definition DNSClassStatus_DeepCopyInto ::
  "('m, 'k, 'l) library \<Rightarrow> ('m, 'k, 'l) heap \<Rightarrow> status_struct \<Rightarrow> status_struct \<times> ('m, 'k, 'l) heap" where
  "DNSClassStatus_DeepCopyInto L h i =
     (let out = i;
          (a, h) = copy_items ConditionsCell conditions_at zero_Condition (Condition_DeepCopyInto L) h
                     (ts_Conditions i);
          out = out\<lparr>ts_Conditions := a\<rparr>;
          (d, h) = new_copy FieldsCell fields_at zero_fields DiscoveredFields_DeepCopyInto h
                     (ts_DiscoveredFields i);
          out = out\<lparr>ts_DiscoveredFields := d\<rparr>
      in (out, h))"

definition DNSClassStatus_DeepCopy ::
  "('m, 'k, 'l) library \<Rightarrow> ('m, 'k, 'l) heap \<Rightarrow> addr option \<Rightarrow> addr option \<times> ('m, 'k, 'l) heap" where
  "DNSClassStatus_DeepCopy L = new_copy StatusCell status_at zero_status (DNSClassStatus_DeepCopyInto L)"

definition DNSClassSpec_DeepCopyInto ::
  "('m, 'k, 'l) library \<Rightarrow> ('m, 'k, 'l) heap \<Rightarrow> spec_struct \<Rightarrow> spec_struct \<times> ('m, 'k, 'l) heap" where
  "DNSClassSpec_DeepCopyInto L h i =
     (let out = i;
          (a, h) = copy_slice StringsCell strings_at [] h (ss_AllowedNamespaces i);
          out = out\<lparr>ss_AllowedNamespaces := a\<rparr>;
          (b, h) = copy_slice StringsCell strings_at [] h (ss_DisabledNamespaces i);
          out = out\<lparr>ss_DisabledNamespaces := b\<rparr>;
          (c, h) = copy_slice StringsCell strings_at [] h (ss_AllowedDNSPolicies i);
          out = out\<lparr>ss_AllowedDNSPolicies := c\<rparr>;
          (d, h) = new_copy ConfigCell config_at zero_config (PodDNSConfig_DeepCopyInto L) h (ss_DNSConfig i);
          out = out\<lparr>ss_DNSConfig := d\<rparr>
      in (out, h))"

definition DNSClassSpec_DeepCopy ::
  "('m, 'k, 'l) library \<Rightarrow> ('m, 'k, 'l) heap \<Rightarrow> addr option \<Rightarrow> addr option \<times> ('m, 'k, 'l) heap" where
  "DNSClassSpec_DeepCopy L = new_copy SpecCell spec_at zero_spec (DNSClassSpec_DeepCopyInto L)"

definition DNSClass_DeepCopyInto ::
  "('m, 'k, 'l) library \<Rightarrow> ('m, 'k, 'l) heap \<Rightarrow> 'm class_struct \<Rightarrow> 'm class_struct \<times> ('m, 'k, 'l) heap" where
  "DNSClass_DeepCopyInto L h i =
     (let out = i;
          out = out\<lparr>os_TypeMeta := os_TypeMeta i\<rparr>;
          (m, h) = ObjectMeta_DeepCopyInto L h (os_ObjectMeta i);
          out = out\<lparr>os_ObjectMeta := m\<rparr>;
          (s, h) = DNSClassSpec_DeepCopyInto L h (os_Spec i);
          out = out\<lparr>os_Spec := s\<rparr>;
          (t, h) = DNSClassStatus_DeepCopyInto L h (os_Status i);
          out = out\<lparr>os_Status := t\<rparr>
      in (out, h))"

definition DNSClass_DeepCopy ::
  "('m, 'k, 'l) library \<Rightarrow> ('m, 'k, 'l) heap \<Rightarrow> addr option \<Rightarrow> addr option \<times> ('m, 'k, 'l) heap" where
  "DNSClass_DeepCopy L =
     new_copy ClassCell (class_at (zero_ObjectMeta L)) (zero_class (zero_ObjectMeta L)) (DNSClass_DeepCopyInto L)"

definition DNSClassList_DeepCopyInto ::
  "('m, 'k, 'l) library \<Rightarrow> ('m, 'k, 'l) heap \<Rightarrow> 'k list_struct \<Rightarrow> 'k list_struct \<times> ('m, 'k, 'l) heap" where
  "DNSClassList_DeepCopyInto L h i =
     (let out = i;
          out = out\<lparr>ls_TypeMeta := ls_TypeMeta i\<rparr>;
          (m, h) = ListMeta_DeepCopyInto L h (ls_ListMeta i);
          out = out\<lparr>ls_ListMeta := m\<rparr>;
          (a, h) = copy_items ClassesCell classes_at (zero_class (zero_ObjectMeta L)) (DNSClass_DeepCopyInto L) h
                     (ls_Items i);
          out = out\<lparr>ls_Items := a\<rparr>
      in (out, h))"

definition DNSClassList_DeepCopy ::
  "('m, 'k, 'l) library \<Rightarrow> ('m, 'k, 'l) heap \<Rightarrow> addr option \<Rightarrow> addr option \<times> ('m, 'k, 'l) heap" where
  "DNSClassList_DeepCopy L =
     new_copy ListCell (list_at (zero_ListMeta L)) (zero_list (zero_ListMeta L)) (DNSClassList_DeepCopyInto L)"

text \<open>
  \<open>DeepCopyObject\<close> answers an interface value: nil, and not an interface holding a nil pointer,
  when the copy is nil.
\<close>

datatype Object_iface = NilObject | ClassObject "addr option" | ListObject "addr option"

definition DNSClass_DeepCopyObject ::
  "('m, 'k, 'l) library \<Rightarrow> ('m, 'k, 'l) heap \<Rightarrow> addr option \<Rightarrow> Object_iface \<times> ('m, 'k, 'l) heap" where
  "DNSClass_DeepCopyObject L h a =
     (let (c, h) = DNSClass_DeepCopy L h a
      in if c \<noteq> None then (ClassObject c, h) else (NilObject, h))"

definition DNSClassList_DeepCopyObject ::
  "('m, 'k, 'l) library \<Rightarrow> ('m, 'k, 'l) heap \<Rightarrow> addr option \<Rightarrow> Object_iface \<times> ('m, 'k, 'l) heap" where
  "DNSClassList_DeepCopyObject L h a =
     (let (c, h) = DNSClassList_DeepCopy L h a
      in if c \<noteq> None then (ListObject c, h) else (NilObject, h))"

section \<open>Copying one cell\<close>

lemma go_copy_full: "length dst = length src \<Longrightarrow> go_copy dst src = src"
  by (simp add: go_copy_def)

lemma plain_object: "object plain_val plain_reach"
  by unfold_locales (simp_all add: plain_val_def plain_reach_def)

interpretation plain: object plain_val plain_reach
  by (rule plain_object)

locale pointer_object = cell_type mk rd + object val reach
  for mk :: "'a \<Rightarrow> ('m, 'k, 'l) cell" and rd :: "('m, 'k, 'l) heap \<Rightarrow> addr \<Rightarrow> 'a"
    and val :: "('m, 'k, 'l) heap \<Rightarrow> 'a \<Rightarrow> 'v" and reach :: "('m, 'k, 'l) heap \<Rightarrow> 'a \<Rightarrow> addr set"
begin

lemma ptr_local:
  assumes "agree_on (ptr_reach rd reach h a) h h'"
  shows "ptr_val rd val h' a = ptr_val rd val h a" "ptr_reach rd reach h' a = ptr_reach rd reach h a"
proof -
  have "rd h' p = rd h p \<and> agree_on (reach h (rd h p)) h h'" if "a = Some p" for p
    using assms that rd_local [of h' p h] by (auto simp: ptr_reach_def agree_on_def)
  then show "ptr_val rd val h' a = ptr_val rd val h a" "ptr_reach rd reach h' a = ptr_reach rd reach h a"
    using val_local reach_local by (cases a; fastforce simp: ptr_val_def ptr_reach_def)+
qed

end

sublocale pointer_object \<subseteq> ptr: object "ptr_val rd val" "ptr_reach rd reach"
  by unfold_locales (rule ptr_local; assumption)+

locale items_object = object val reach
  for val :: "('m, 'k, 'l) heap \<Rightarrow> 'a \<Rightarrow> 'v" and reach :: "('m, 'k, 'l) heap \<Rightarrow> 'a \<Rightarrow> addr set"
begin

lemma items_local:
  assumes "agree_on (items_reach reach h xs) h h'"
  shows "items_val val h' xs = items_val val h xs" "items_reach reach h' xs = items_reach reach h xs"
proof -
  have "val h' x = val h x \<and> reach h' x = reach h x" if "x \<in> set xs" for x
    using assms that by (auto intro!: val_local reach_local simp: items_reach_def agree_on_def)
  then show "items_val val h' xs = items_val val h xs" "items_reach reach h' xs = items_reach reach h xs"
    by (simp_all add: items_val_def items_reach_def)
qed

end

sublocale items_object \<subseteq> items: object "items_val val" "items_reach reach"
  by unfold_locales (rule items_local; assumption)+

context items_object
begin

lemma items_is_object: "object (items_val val) (items_reach reach)"
  by (rule items.object_axioms)

end

text \<open>A slice of values without pointers.\<close>

locale plain_slice = cell_type mk rd
  for mk :: "'a list \<Rightarrow> ('m, 'k, 'l) cell" and rd :: "('m, 'k, 'l) heap \<Rightarrow> addr \<Rightarrow> 'a list" +
  fixes zero :: 'a

sublocale plain_slice \<subseteq> po: pointer_object mk rd plain_val plain_reach
  by unfold_locales

context plain_slice
begin

lemma copy_slice_step:
  assumes "good h" and "ptr_reach rd plain_reach h a \<subseteq> dom (cells h)"
    and "copy_slice mk rd zero h a = (b, h')"
  shows "extends h h'" "ptr_val rd plain_val h' b = ptr_val rd plain_val h a"
    "ptr_reach rd plain_reach h' b \<subseteq> dom (cells h') - dom (cells h)"
proof -
  have "extends h h' \<and> ptr_val rd plain_val h' b = ptr_val rd plain_val h a \<and>
    ptr_reach rd plain_reach h' b \<subseteq> dom (cells h') - dom (cells h)"
  proof (cases a)
    case None
    then show ?thesis
      using assms by (auto simp: copy_slice_def extends_refl ptr_val_def ptr_reach_def)
  next
    case (Some p)
    obtain q h1 where al: "alloc (mk (replicate (length (rd h p)) zero)) h = (q, h1)" by fastforce
    note e = extends_alloc [OF assms(1) al]
    have p: "p \<in> dom (cells h)" using assms(2) Some by (simp add: ptr_reach_def)
    then have p1: "cells h1 p = cells h p"
      using extends_agree [OF e(1), of "{p}"] by (simp add: agree_on_def)
    have cp: "go_copy (rd h1 q) (rd h1 p) = rd h p"
      using rd_mk [OF e(3)] rd_local [OF p1] by (simp add: go_copy_full)
    have b: "b = Some q" and h': "h' = store q (mk (rd h p)) h1"
      using assms(3) Some al cp by (simp_all add: copy_slice_def)
    have "rd h' q = rd h p" by (rule rd_mk) (simp add: h')
    moreover have "extends h h'" unfolding h' using e by (intro extends_store) auto
    ultimately show ?thesis
      using Some b e(2) by (auto simp: ptr_val_def ptr_reach_def plain_val_def plain_reach_def h')
  qed
  then show "extends h h'" "ptr_val rd plain_val h' b = ptr_val rd plain_val h a"
    "ptr_reach rd plain_reach h' b \<subseteq> dom (cells h') - dom (cells h)" by blast+
qed

end

sublocale plain_slice \<subseteq> slice: deepcopy "ptr_val rd plain_val" "ptr_reach rd plain_reach" "copy_slice mk rd zero"
  by unfold_locales (rule copy_slice_step; assumption)+

text \<open>A pointer to a struct with a deep copy.\<close>

locale pointer_copy = cell_type mk rd + deepcopy val reach copy
  for mk :: "'a \<Rightarrow> ('m, 'k, 'l) cell" and rd :: "('m, 'k, 'l) heap \<Rightarrow> addr \<Rightarrow> 'a"
    and val :: "('m, 'k, 'l) heap \<Rightarrow> 'a \<Rightarrow> 'v" and reach :: "('m, 'k, 'l) heap \<Rightarrow> 'a \<Rightarrow> addr set"
    and copy :: "('m, 'k, 'l) heap \<Rightarrow> 'a \<Rightarrow> 'a \<times> ('m, 'k, 'l) heap" +
  fixes zero :: 'a

sublocale pointer_copy \<subseteq> po: pointer_object mk rd val reach
  by unfold_locales

context pointer_copy
begin

lemma new_copy_step:
  assumes "good h" and "ptr_reach rd reach h a \<subseteq> dom (cells h)"
    and "new_copy mk rd zero copy h a = (b, h')"
  shows "extends h h'" "ptr_val rd val h' b = ptr_val rd val h a"
    "ptr_reach rd reach h' b \<subseteq> dom (cells h') - dom (cells h)"
proof -
  have "extends h h' \<and> ptr_val rd val h' b = ptr_val rd val h a \<and>
    ptr_reach rd reach h' b \<subseteq> dom (cells h') - dom (cells h)"
  proof (cases a)
    case None
    then show ?thesis
      using assms by (auto simp: new_copy_def extends_refl ptr_val_def ptr_reach_def)
  next
    case (Some p)
    obtain q h1 where al: "alloc (mk zero) h = (q, h1)" by fastforce
    note e = extends_alloc [OF assms(1) al]
    have p: "p \<in> dom (cells h)" and r: "reach h (rd h p) \<subseteq> dom (cells h)"
      using assms(2) Some by (simp_all add: ptr_reach_def)
    then have p1: "rd h1 p = rd h p"
      using extends_agree [OF e(1), of "{p}"] rd_local [of h1 p h] by (simp add: agree_on_def)
    obtain x h2 where cp: "copy h1 (rd h p) = (x, h2)" by fastforce
    note s = copy_step [OF e(1) r cp]
    have b: "b = Some q" and h': "h' = store q (mk x) h2"
      using assms(3) Some al cp p1 by (simp_all add: new_copy_def)
    have q: "q \<notin> reach h2 x" "q \<in> dom (cells h2)"
      using s(4) e(3) extends_dom [OF s(1)] by auto
    have c: "copied val reach h (rd h p) h' x"
      unfolding h' using s(3) q(1) by (rule copied_store)
    have "rd h' q = x" by (rule rd_mk) (simp add: h')
    moreover have "extends h h'" unfolding h' using s(2) q(2) e(2) by (rule extends_store)
    ultimately show ?thesis
      using Some b c e(2) q(2) by (auto simp: ptr_val_def ptr_reach_def copied_def h')
  qed
  then show "extends h h'" "ptr_val rd val h' b = ptr_val rd val h a"
    "ptr_reach rd reach h' b \<subseteq> dom (cells h') - dom (cells h)" by blast+
qed

end

sublocale pointer_copy \<subseteq> pointer: deepcopy "ptr_val rd val" "ptr_reach rd reach" "new_copy mk rd zero copy"
  by unfold_locales (rule new_copy_step; assumption)+

context pointer_copy
begin

lemma pointer_deepcopy: "deepcopy (ptr_val rd val) (ptr_reach rd reach) (new_copy mk rd zero copy)"
  by (rule pointer.deepcopy_axioms)

end

text \<open>A slice of structs with a deep copy.\<close>

locale slice_copy = cell_type mk rd + deepcopy val reach copy
  for mk :: "'a list \<Rightarrow> ('m, 'k, 'l) cell" and rd :: "('m, 'k, 'l) heap \<Rightarrow> addr \<Rightarrow> 'a list"
    and val :: "('m, 'k, 'l) heap \<Rightarrow> 'a \<Rightarrow> 'v" and reach :: "('m, 'k, 'l) heap \<Rightarrow> 'a \<Rightarrow> addr set"
    and copy :: "('m, 'k, 'l) heap \<Rightarrow> 'a \<Rightarrow> 'a \<times> ('m, 'k, 'l) heap" +
  fixes zero :: 'a

sublocale slice_copy \<subseteq> io: items_object val reach
  by unfold_locales

sublocale slice_copy \<subseteq> po: pointer_object mk rd "items_val val" "items_reach reach"
  by unfold_locales

context slice_copy
begin

text \<open>
  The loop with the indices below \<open>i\<close> done: the fresh cell \<open>q\<close> holds copies there, none of which
  lives on \<open>q\<close>.
\<close>

definition loop_inv :: "('m, 'k, 'l) heap \<Rightarrow> addr \<Rightarrow> 'a list \<Rightarrow> nat \<Rightarrow> ('m, 'k, 'l) heap \<Rightarrow> bool" where
  "loop_inv h0 q xs i h \<longleftrightarrow>
     extends h0 h \<and> q \<in> dom (cells h) - dom (cells h0) \<and> length (rd h q) = length xs \<and>
     (\<forall>j < i. copied val reach h0 (xs ! j) h (rd h q ! j) \<and> q \<notin> reach h (rd h q ! j))"

lemma loop_step:
  assumes inv: "loop_inv h0 q xs i h" and i: "i < length xs"
    and r: "reach h0 (xs ! i) \<subseteq> dom (cells h0)" and cp: "copy h (xs ! i) = (x, h')"
  shows "loop_inv h0 q xs (Suc i) (store q (mk ((rd h' q)[i := x])) h')"
proof -
  have e: "extends h0 h" and q: "q \<in> dom (cells h)" "q \<notin> dom (cells h0)"
    using inv by (auto simp: loop_inv_def)
  note s = copy_step [OF e r cp]
  have rq: "rd h' q = rd h q"
    using extends_agree [OF s(1), of "{q}"] q(1) by (intro rd_local) (simp add: agree_on_def)
  let ?h = "store q (mk ((rd h' q)[i := x])) h'"
  have rd: "rd ?h q = (rd h q)[i := x]" by (rule rd_mk) (simp add: rq)
  have one: "copied val reach h0 (xs ! j) ?h (rd ?h q ! j) \<and> q \<notin> reach ?h (rd ?h q ! j)" if "j < Suc i" for j
  proof -
    have c: "copied val reach h0 (xs ! j) h' (rd ?h q ! j)" and n: "q \<notin> reach h' (rd ?h q ! j)"
    proof -
      have "copied val reach h0 (xs ! j) h' (rd ?h q ! j) \<and> q \<notin> reach h' (rd ?h q ! j)"
      proof (cases "j = i")
        case True
        then show ?thesis using s(3,4) q(1) i inv by (auto simp: rd loop_inv_def)
      next
        case False
        then have j: "j < i" using that by simp
        then have o: "copied val reach h0 (xs ! j) h (rd h q ! j)" "q \<notin> reach h (rd h q ! j)"
          using inv by (auto simp: loop_inv_def)
        then have "reach h (rd h q ! j) \<subseteq> dom (cells h)" by (auto simp: copied_def)
        then show ?thesis
          using copied_kept [OF o(1) s(1)] kept(2) [OF s(1)] o(2) False by (simp add: rd)
      qed
      then show "copied val reach h0 (xs ! j) h' (rd ?h q ! j)" "q \<notin> reach h' (rd ?h q ! j)" by auto
    qed
    show ?thesis
      using copied_store [OF c n] n reach_local [OF agree_store [OF n]] by simp
  qed
  have "extends h0 ?h" using s(2) q extends_dom [OF s(1)] by (intro extends_store) auto
  then show ?thesis using one q inv extends_dom [OF s(1)] by (simp add: loop_inv_def rd)
qed

lemma loop_done:
  assumes "loop_inv h0 q xs i h" and "i \<le> length xs"
    and "items_reach reach h0 xs \<subseteq> dom (cells h0)" and "p \<in> dom (cells h0)" and "rd h0 p = xs"
  shows "loop_inv h0 q xs (length xs) (items_loop mk rd copy p q [i..<length xs] h)"
  using assms(1,2)
proof (induction "length xs - i" arbitrary: i h)
  case 0
  then show ?case by simp
next
  case (Suc n)
  then have i: "i < length xs" by simp
  have "extends h0 h" using Suc.prems(1) by (simp add: loop_inv_def)
  from extends_agree [OF this, of "{p}"] have p: "rd h p = xs"
    using assms(4,5) rd_local [of h p h0] by (simp add: agree_on_def)
  obtain x h' where cp: "copy h (xs ! i) = (x, h')" by fastforce
  have "reach h0 (xs ! i) \<subseteq> dom (cells h0)" 
    using assms(3) nth_mem [OF i] unfolding items_reach_def by blast
  from Suc.hyps(1) [OF _ loop_step [OF Suc.prems(1) i this cp]] Suc.hyps(2)
  show ?case using i by (simp add: upt_conv_Cons p cp)
qed

lemma copy_items_step:
  assumes "good h" and "ptr_reach rd (items_reach reach) h a \<subseteq> dom (cells h)"
    and "copy_items mk rd zero copy h a = (b, h')"
  shows "extends h h'" "ptr_val rd (items_val val) h' b = ptr_val rd (items_val val) h a"
    "ptr_reach rd (items_reach reach) h' b \<subseteq> dom (cells h') - dom (cells h)"
proof -
  have "extends h h' \<and> ptr_val rd (items_val val) h' b = ptr_val rd (items_val val) h a \<and>
    ptr_reach rd (items_reach reach) h' b \<subseteq> dom (cells h') - dom (cells h)"
  proof (cases a)
    case None
    then show ?thesis
      using assms by (auto simp: copy_items_def extends_refl ptr_val_def ptr_reach_def)
  next
    case (Some p)
    let ?xs = "rd h p"
    obtain q h1 where al: "alloc (mk (replicate (length ?xs) zero)) h = (q, h1)" by fastforce
    note e = extends_alloc [OF assms(1) al]
    have p: "p \<in> dom (cells h)" and r: "items_reach reach h ?xs \<subseteq> dom (cells h)"
      using assms(2) Some by (simp_all add: ptr_reach_def)
    have p1: "rd h1 p = ?xs"
      using extends_agree [OF e(1), of "{p}"] p rd_local [of h1 p h] by (simp add: agree_on_def)
    have "loop_inv h q ?xs 0 h1"
      using e rd_mk [OF e(3)] by (auto simp: loop_inv_def)
    then have inv: "loop_inv h q ?xs (length ?xs) h'" and b: "b = Some q"
      using loop_done [OF _ _ r p refl] assms(3) Some al p1 by (auto simp: copy_items_def)
    then show ?thesis
      using Some by (fastforce simp: loop_inv_def copied_def ptr_val_def ptr_reach_def items_val_def
          items_reach_def list_eq_iff_nth_eq in_set_conv_nth)
  qed
  then show "extends h h'" "ptr_val rd (items_val val) h' b = ptr_val rd (items_val val) h a"
    "ptr_reach rd (items_reach reach) h' b \<subseteq> dom (cells h') - dom (cells h)" by blast+
qed

end

sublocale slice_copy \<subseteq> slice: deepcopy "ptr_val rd (items_val val)" "ptr_reach rd (items_reach reach)"
    "copy_items mk rd zero copy"
  by unfold_locales (rule copy_items_step; assumption)+

context slice_copy
begin

lemma slice_deepcopy:
  "deepcopy (ptr_val rd (items_val val)) (ptr_reach rd (items_reach reach)) (copy_items mk rd zero copy)"
  by (rule slice.deepcopy_axioms)

end

section \<open>The types of the package\<close>

interpretation strings_slice: plain_slice StringsCell strings_at "[]"
  by unfold_locales

interpretation options_pointer: pointer_object OptionsCell options_at plain_val plain_reach
  by unfold_locales

interpretation config: object config_val config_reach
  by unfold_locales
    (auto simp: config_val_def config_reach_def
      dest: strings_slice.po.ptr_local options_pointer.ptr_local)

interpretation config_pointer: pointer_object ConfigCell config_at config_val config_reach
  by unfold_locales

interpretation conditions_object: items_object plain_val plain_reach
  by unfold_locales

interpretation conditions_pointer:
  pointer_object ConditionsCell conditions_at "items_val plain_val" "items_reach plain_reach"
  by unfold_locales

text \<open>\<open>DiscoveredFields\<close> holds one slice.\<close>

lemma fields_object: "object fields_val fields_reach"
  by unfold_locales (auto simp: fields_val_def fields_reach_def dest: strings_slice.po.ptr_local)

interpretation fields: deepcopy fields_val fields_reach DiscoveredFields_DeepCopyInto
proof (intro deepcopy.intro fields_object deepcopy_axioms.intro)
  fix h h' :: "('a, 'b, 'c) heap" and i out
  assume h: "good h" "fields_reach h i \<subseteq> dom (cells h)" "DiscoveredFields_DeepCopyInto h i = (out, h')"
  obtain a where c: "copy_slice StringsCell strings_at [] h (fs_Nameservers i) = (a, h')"
    and out: "out = i\<lparr>fs_Nameservers := a\<rparr>"
    using h(3) by (auto simp: DiscoveredFields_DeepCopyInto_def split: prod.splits)
  have r: "strings_reach h (fs_Nameservers i) \<subseteq> dom (cells h)" using h(2) by (simp add: fields_reach_def)
  note s = strings_slice.copy_slice_step [OF h(1) r c]
  show "extends h h'" "fields_val h' out = fields_val h i"
    "fields_reach h' out \<subseteq> dom (cells h') - dom (cells h)"
    using s by (auto simp: fields_val_def fields_reach_def out)
qed

interpretation fields_pointer: pointer_copy FieldsCell fields_at fields_val fields_reach
    DiscoveredFields_DeepCopyInto zero_fields
  by unfold_locales

lemma spec_object: "object spec_val spec_reach"
  by unfold_locales
    (auto simp: spec_val_def spec_reach_def dest: strings_slice.po.ptr_local config_pointer.ptr_local)

interpretation spec: object spec_val spec_reach
  by (rule spec_object)

lemma status_object: "object status_val status_reach"
  by unfold_locales
    (auto simp: status_val_def status_reach_def dest: conditions_pointer.ptr_local fields_pointer.po.ptr_local)

interpretation status: object status_val status_reach
  by (rule status_object)

section \<open>Structs of several parts\<close>

text \<open>
  How a struct of several parts is copied: part by part, each on the heap the parts before it
  left, which the locale's facts carry along.
\<close>

lemma deepcopyI:
  assumes "object val reach"
    and "\<And>h i out h'. good h \<Longrightarrow> reach h i \<subseteq> dom (cells h) \<Longrightarrow> copy h i = (out, h') \<Longrightarrow>
      extends h h' \<and> copied val reach h i h' out"
  shows "deepcopy val reach copy"
  using assms by (intro deepcopy.intro deepcopy_axioms.intro) (auto simp: copied_def)

text \<open>\<open>DNSClassSpec\<close>: three slices and a pointer.\<close>

lemma spec_copied:
  assumes L: "deepcopy config_val config_reach (PodDNSConfig_DeepCopyInto L)"
    and h: "good h" "spec_reach h i \<subseteq> dom (cells h)" "DNSClassSpec_DeepCopyInto L h i = (out, h')"
  shows "extends h h' \<and> copied spec_val spec_reach h i h' out"
proof -
  have cp: "pointer_copy ConfigCell config_at config_val config_reach (PodDNSConfig_DeepCopyInto L)"
    by (intro pointer_copy.intro L config_cell.cell_type_axioms)
  obtain a h1 b h2 c h3 d where
    c1: "copy_slice StringsCell strings_at [] h (ss_AllowedNamespaces i) = (a, h1)" and
    c2: "copy_slice StringsCell strings_at [] h1 (ss_DisabledNamespaces i) = (b, h2)" and
    c3: "copy_slice StringsCell strings_at [] h2 (ss_AllowedDNSPolicies i) = (c, h3)" and
    c4: "new_copy ConfigCell config_at zero_config (PodDNSConfig_DeepCopyInto L) h3 (ss_DNSConfig i) = (d, h')" and
    out: "out = i\<lparr>ss_AllowedNamespaces := a, ss_DisabledNamespaces := b, ss_AllowedDNSPolicies := c, ss_DNSConfig := d\<rparr>"
    using h(3) by (auto simp: DNSClassSpec_DeepCopyInto_def Let_def split: prod.splits)
  have r: "strings_reach h (ss_AllowedNamespaces i) \<subseteq> dom (cells h)"
    "strings_reach h (ss_DisabledNamespaces i) \<subseteq> dom (cells h)"
    "strings_reach h (ss_AllowedDNSPolicies i) \<subseteq> dom (cells h)"
    "config_ptr_reach h (ss_DNSConfig i) \<subseteq> dom (cells h)"
    using h(2) by (simp_all add: spec_reach_def)
  note s1 = strings_slice.slice.copy_step [OF extends_refl [OF h(1)] r(1) c1]
  note s2 = strings_slice.slice.copy_step [OF s1(2) r(2) c2]
  note s3 = strings_slice.slice.copy_step [OF s2(2) r(3) c3]
  note s4 = deepcopy.copy_step [OF pointer_copy.pointer_deepcopy [OF cp] s3(2) r(4) c4]
  note k = strings_slice.po.ptr.copied_kept
  have "copied strings_val strings_reach h (ss_AllowedNamespaces i) h' a"
    "copied strings_val strings_reach h (ss_DisabledNamespaces i) h' b"
    "copied strings_val strings_reach h (ss_AllowedDNSPolicies i) h' c"
    using k [OF k [OF k [OF s1(3) s2(1)] s3(1)] s4(1)] k [OF k [OF s2(3) s3(1)] s4(1)] k [OF s3(3) s4(1)] .
  then show ?thesis using s4(2,3) by (simp add: copied_def spec_val_def spec_reach_def out)
qed

lemma spec_deepcopy:
  "deepcopy config_val config_reach (PodDNSConfig_DeepCopyInto L) \<Longrightarrow>
   deepcopy spec_val spec_reach (DNSClassSpec_DeepCopyInto L)"
  by (rule deepcopyI [OF spec_object]) (rule spec_copied)

text \<open>\<open>DNSClassStatus\<close>: a slice of conditions and a pointer.\<close>

lemma status_copied:
  assumes L: "deepcopy plain_val plain_reach (Condition_DeepCopyInto L)"
    and h: "good h" "status_reach h i \<subseteq> dom (cells h)" "DNSClassStatus_DeepCopyInto L h i = (out, h')"
  shows "extends h h' \<and> copied status_val status_reach h i h' out"
proof -
  have sc: "slice_copy ConditionsCell conditions_at plain_val plain_reach (Condition_DeepCopyInto L)"
    by (intro slice_copy.intro L conditions_cell.cell_type_axioms)
  note dc = slice_copy.slice_deepcopy [OF sc]
  obtain a h1 d where
    c1: "copy_items ConditionsCell conditions_at zero_Condition (Condition_DeepCopyInto L) h (ts_Conditions i) = (a, h1)" and
    c2: "new_copy FieldsCell fields_at zero_fields DiscoveredFields_DeepCopyInto h1 (ts_DiscoveredFields i) = (d, h')" and
    out: "out = i\<lparr>ts_Conditions := a, ts_DiscoveredFields := d\<rparr>"
    using h(3) by (auto simp: DNSClassStatus_DeepCopyInto_def Let_def split: prod.splits)
  have r: "conditions_reach h (ts_Conditions i) \<subseteq> dom (cells h)"
    "fields_ptr_reach h (ts_DiscoveredFields i) \<subseteq> dom (cells h)"
    using h(2) by (simp_all add: status_reach_def)
  note s1 = deepcopy.copy_step [OF dc extends_refl [OF h(1)] r(1) c1]
  note s2 = fields_pointer.pointer.copy_step [OF s1(2) r(2) c2]
  have "copied conditions_val conditions_reach h (ts_Conditions i) h' a"
    using conditions_pointer.ptr.copied_kept [OF s1(3) s2(1)] .
  then show ?thesis using s2(2,3) by (simp add: copied_def status_val_def status_reach_def out)
qed

lemma status_deepcopy:
  "deepcopy plain_val plain_reach (Condition_DeepCopyInto L) \<Longrightarrow>
   deepcopy status_val status_reach (DNSClassStatus_DeepCopyInto L)"
  by (rule deepcopyI [OF status_object]) (rule status_copied)

text \<open>
  \<open>DNSClass\<close> and \<open>DNSClassList\<close>. How the metadata is read, and the cells it occupies, is given
  with the library.
\<close>

definition class_val ::
  "(('m, 'k, 'l) heap \<Rightarrow> 'm \<Rightarrow> 'v) \<Rightarrow> ('m, 'k, 'l) heap \<Rightarrow> 'm class_struct \<Rightarrow>
   (string \<times> string) \<times> 'v \<times> DNSClassSpec \<times> DNSClassStatus" where
  "class_val mv h c =
     (os_TypeMeta c, mv h (os_ObjectMeta c), spec_val h (os_Spec c), status_val h (os_Status c))"

definition class_reach ::
  "(('m, 'k, 'l) heap \<Rightarrow> 'm \<Rightarrow> addr set) \<Rightarrow> ('m, 'k, 'l) heap \<Rightarrow> 'm class_struct \<Rightarrow> addr set" where
  "class_reach mr h c = mr h (os_ObjectMeta c) \<union> spec_reach h (os_Spec c) \<union> status_reach h (os_Status c)"

definition list_val where
  "list_val mv kv h l =
     (ls_TypeMeta l, kv h (ls_ListMeta l), ptr_val classes_at (items_val (class_val mv)) h (ls_Items l))"

definition list_reach where
  "list_reach mr kr h l =
     kr h (ls_ListMeta l) \<union> ptr_reach classes_at (items_reach (class_reach mr)) h (ls_Items l)"

text \<open>What the code relies on: the library's own copies are deep copies.\<close>

definition library_contract where
  "library_contract mv mr kv kr L \<longleftrightarrow>
     deepcopy config_val config_reach (PodDNSConfig_DeepCopyInto L) \<and>
     deepcopy plain_val plain_reach (Condition_DeepCopyInto L) \<and>
     deepcopy mv mr (ObjectMeta_DeepCopyInto L) \<and> deepcopy kv kr (ListMeta_DeepCopyInto L)"

lemma class_object:
  assumes "object mv mr"
  shows "object (class_val mv) (class_reach mr)"
  by unfold_locales
    (auto simp: class_val_def class_reach_def
      dest: object.val_local [OF assms] object.reach_local [OF assms]
        spec.val_local spec.reach_local status.val_local status.reach_local)

lemma class_deepcopy:
  assumes L: "library_contract mv mr kv kr L"
  shows "deepcopy (class_val mv) (class_reach mr) (DNSClass_DeepCopyInto L)"
proof (rule deepcopyI)
  have d: "deepcopy mv mr (ObjectMeta_DeepCopyInto L)"
    "deepcopy spec_val spec_reach (DNSClassSpec_DeepCopyInto L)"
    "deepcopy status_val status_reach (DNSClassStatus_DeepCopyInto L)"
    using L by (simp_all add: library_contract_def spec_deepcopy status_deepcopy)
  have o: "object mv mr" using d(1) by (rule deepcopy.axioms)
  then show "object (class_val mv) (class_reach mr)" by (rule class_object)
  fix h i out h'
  assume h: "good h" "class_reach mr h i \<subseteq> dom (cells h)" "DNSClass_DeepCopyInto L h i = (out, h')"
  obtain m h1 s h2 t where
    c1: "ObjectMeta_DeepCopyInto L h (os_ObjectMeta i) = (m, h1)" and
    c2: "DNSClassSpec_DeepCopyInto L h1 (os_Spec i) = (s, h2)" and
    c3: "DNSClassStatus_DeepCopyInto L h2 (os_Status i) = (t, h')" and
    out: "out = i\<lparr>os_ObjectMeta := m, os_Spec := s, os_Status := t\<rparr>"
    using h(3) by (auto simp: DNSClass_DeepCopyInto_def Let_def split: prod.splits)
  have r: "mr h (os_ObjectMeta i) \<subseteq> dom (cells h)" "spec_reach h (os_Spec i) \<subseteq> dom (cells h)"
    "status_reach h (os_Status i) \<subseteq> dom (cells h)"
    using h(2) by (simp_all add: class_reach_def)
  note s1 = deepcopy.copy_step [OF d(1) extends_refl [OF h(1)] r(1) c1]
  note s2 = deepcopy.copy_step [OF d(2) s1(2) r(2) c2]
  note s3 = deepcopy.copy_step [OF d(3) s2(2) r(3) c3]
  have "copied mv mr h (os_ObjectMeta i) h' m" "copied spec_val spec_reach h (os_Spec i) h' s"
    using object.copied_kept [OF o object.copied_kept [OF o s1(3) s2(1)] s3(1)]
      spec.copied_kept [OF s2(3) s3(1)] .
  then show "extends h h' \<and> copied (class_val mv) (class_reach mr) h i h' out"
    using s3(2,3) by (simp add: copied_def class_val_def class_reach_def out)
qed

lemma classes_deepcopy:
  assumes L: "library_contract mv mr kv kr L"
  shows "deepcopy (ptr_val classes_at (items_val (class_val mv)))
    (ptr_reach classes_at (items_reach (class_reach mr)))
    (copy_items ClassesCell classes_at (zero_class (zero_ObjectMeta L)) (DNSClass_DeepCopyInto L))"
  by (rule slice_copy.slice_deepcopy)
    (intro slice_copy.intro class_deepcopy [OF L] classes_cell.cell_type_axioms)

lemma list_object:
  assumes "object mv mr" and "object kv kr"
  shows "object (list_val mv kv) (list_reach mr kr)"
proof -
  have "pointer_object ClassesCell classes_at (items_val (class_val mv)) (items_reach (class_reach mr))"
    by (intro pointer_object.intro classes_cell.cell_type_axioms items_object.items_is_object
        items_object.intro class_object [OF assms(1)])
  note p = pointer_object.ptr_local [OF this]
  show ?thesis
    by unfold_locales
      (auto simp: list_val_def list_reach_def
        dest: p object.val_local [OF assms(2)] object.reach_local [OF assms(2)])
qed

lemma list_deepcopy:
  assumes L: "library_contract mv mr kv kr L"
  shows "deepcopy (list_val mv kv) (list_reach mr kr) (DNSClassList_DeepCopyInto L)"
proof (rule deepcopyI)
  have d: "deepcopy mv mr (ObjectMeta_DeepCopyInto L)" "deepcopy kv kr (ListMeta_DeepCopyInto L)"
    using L by (simp_all add: library_contract_def)
  have o: "object mv mr" "object kv kr" using d by (auto dest: deepcopy.axioms)
  then show "object (list_val mv kv) (list_reach mr kr)" by (rule list_object)
  fix h i out h'
  assume h: "good h" "list_reach mr kr h i \<subseteq> dom (cells h)" "DNSClassList_DeepCopyInto L h i = (out, h')"
  obtain m h1 a where
    c1: "ListMeta_DeepCopyInto L h (ls_ListMeta i) = (m, h1)" and
    c2: "copy_items ClassesCell classes_at (zero_class (zero_ObjectMeta L)) (DNSClass_DeepCopyInto L) h1
           (ls_Items i) = (a, h')" and
    out: "out = i\<lparr>ls_ListMeta := m, ls_Items := a\<rparr>"
    using h(3) by (auto simp: DNSClassList_DeepCopyInto_def Let_def split: prod.splits)
  have r: "kr h (ls_ListMeta i) \<subseteq> dom (cells h)"
    "ptr_reach classes_at (items_reach (class_reach mr)) h (ls_Items i) \<subseteq> dom (cells h)"
    using h(2) by (simp_all add: list_reach_def)
  note s1 = deepcopy.copy_step [OF d(2) extends_refl [OF h(1)] r(1) c1]
  note s2 = deepcopy.copy_step [OF classes_deepcopy [OF L] s1(2) r(2) c2]
  have "copied kv kr h (ls_ListMeta i) h' m" using object.copied_kept [OF o(2) s1(3) s2(1)] .
  then show "extends h h' \<and> copied (list_val mv kv) (list_reach mr kr) h i h' out"
    using s2(2,3) by (simp add: copied_def list_val_def list_reach_def out)
qed

section \<open>The pointer copies\<close>

abbreviation class_ptr_val where
  "class_ptr_val mv L \<equiv> ptr_val (class_at (zero_ObjectMeta L)) (class_val mv)"

abbreviation class_ptr_reach where
  "class_ptr_reach mr L \<equiv> ptr_reach (class_at (zero_ObjectMeta L)) (class_reach mr)"

abbreviation list_ptr_val where
  "list_ptr_val mv kv L \<equiv> ptr_val (list_at (zero_ListMeta L)) (list_val mv kv)"

abbreviation list_ptr_reach where
  "list_ptr_reach mr kr L \<equiv> ptr_reach (list_at (zero_ListMeta L)) (list_reach mr kr)"

lemma DNSClass_DeepCopy_deepcopy:
  assumes "library_contract mv mr kv kr L"
  shows "deepcopy (class_ptr_val mv L) (class_ptr_reach mr L) (DNSClass_DeepCopy L)"
  unfolding DNSClass_DeepCopy_def
  by (rule pointer_copy.pointer_deepcopy)
    (intro pointer_copy.intro class_deepcopy [OF assms] class_cell.cell_type_axioms)

lemma DNSClassList_DeepCopy_deepcopy:
  assumes "library_contract mv mr kv kr L"
  shows "deepcopy (list_ptr_val mv kv L) (list_ptr_reach mr kr L) (DNSClassList_DeepCopy L)"
  unfolding DNSClassList_DeepCopy_def
  by (rule pointer_copy.pointer_deepcopy)
    (intro pointer_copy.intro list_deepcopy [OF assms] list_cell.cell_type_axioms)

text \<open>The pointer copies of the parts, and the interface value of a class.\<close>

lemma part_copies_deepcopy:
  assumes "library_contract mv mr kv kr L"
  shows "deepcopy (ptr_val spec_at spec_val) (ptr_reach spec_at spec_reach) (DNSClassSpec_DeepCopy L)"
    and "deepcopy (ptr_val status_at status_val) (ptr_reach status_at status_reach) (DNSClassStatus_DeepCopy L)"
    and "deepcopy fields_ptr_val fields_ptr_reach DiscoveredFields_DeepCopy"
proof -
  have d: "deepcopy spec_val spec_reach (DNSClassSpec_DeepCopyInto L)"
    "deepcopy status_val status_reach (DNSClassStatus_DeepCopyInto L)"
    using assms by (simp_all add: library_contract_def spec_deepcopy status_deepcopy)
  show "deepcopy (ptr_val spec_at spec_val) (ptr_reach spec_at spec_reach) (DNSClassSpec_DeepCopy L)"
    unfolding DNSClassSpec_DeepCopy_def
    by (intro pointer_copy.pointer_deepcopy pointer_copy.intro spec_cell.cell_type_axioms d)
  show "deepcopy (ptr_val status_at status_val) (ptr_reach status_at status_reach) (DNSClassStatus_DeepCopy L)"
    unfolding DNSClassStatus_DeepCopy_def
    by (intro pointer_copy.pointer_deepcopy pointer_copy.intro status_cell.cell_type_axioms d)
  show "deepcopy fields_ptr_val fields_ptr_reach DiscoveredFields_DeepCopy"
    unfolding DiscoveredFields_DeepCopy_def by (rule fields_pointer.pointer_deepcopy)
qed

lemma new_copy_nil:
  "new_copy mk rd zero copy h a = (b, h') \<Longrightarrow> b = None \<longleftrightarrow> a = None"
  by (auto simp: new_copy_def split: option.splits prod.splits)

text \<open>
  C17. \<open>DNSClassList.DeepCopy\<close> and \<open>DeepCopyObject\<close> answer nil exactly for nil (and then a nil
  interface, not an interface that holds a nil pointer). Otherwise the copy reads as the original
  did, item by item, through every slice and pointer; the original still reads as before; and the
  two share no cell, so the copy is deep.
\<close>

theorem DNSClassList_DeepCopy_equal:
  assumes "library_contract mv mr kv kr L" and "good h"
    and "list_ptr_reach mr kr L h a \<subseteq> dom (cells h)"
    and "DNSClassList_DeepCopyObject L h a = (obj, h')"
  shows "(case obj of
      NilObject \<Rightarrow> a = None
    | ClassObject b \<Rightarrow> False
    | ListObject b \<Rightarrow>
        a \<noteq> None \<and> b \<noteq> None \<and>
        list_ptr_val mv kv L h' b = list_ptr_val mv kv L h a \<and>
        list_ptr_val mv kv L h' a = list_ptr_val mv kv L h a \<and>
        list_ptr_reach mr kr L h' b \<inter> list_ptr_reach mr kr L h' a = {})"
proof -
  obtain b h1 where c: "DNSClassList_DeepCopy L h a = (b, h1)" by fastforce
  note d = DNSClassList_DeepCopy_deepcopy [OF assms(1)]
  note o = deepcopy.axioms(1) [OF d]
  have e: "extends h h1" using d c assms(2,3) by (simp add: deepcopy.copy_extends)
  have nil: "b = None \<longleftrightarrow> a = None" using c unfolding DNSClassList_DeepCopy_def by (rule new_copy_nil)
  show ?thesis
    using assms(4) c nil deepcopy.copy_val [OF d assms(2,3) c] deepcopy.copy_disjoint [OF d assms(2,3) c]
      object.kept(1) [OF o e assms(3)]
    by (auto simp: DNSClassList_DeepCopyObject_def)
qed

text \<open>
  A \<open>DNSClass\<close> and its deep copy are independent: whatever is written later to the cells of
  the copy, the original reads as it did before the copy; whatever is written to the cells that
  were there before the copy, the copy keeps the value copied.
\<close>

theorem DNSClass_DeepCopy_independent:
  assumes "library_contract mv mr kv kr L" and "good h"
    and "class_ptr_reach mr L h a \<subseteq> dom (cells h)" and "DNSClass_DeepCopy L h a = (b, h')"
  shows "((\<forall>p. p \<notin> class_ptr_reach mr L h' b \<longrightarrow> cells h1 p = cells h' p) \<longrightarrow>
      class_ptr_val mv L h1 a = class_ptr_val mv L h a) \<and>
    ((\<forall>p. p \<notin> dom (cells h) \<longrightarrow> cells h2 p = cells h' p) \<longrightarrow>
      class_ptr_val mv L h2 b = class_ptr_val mv L h a)"
  using deepcopy.original_unchanged [OF DNSClass_DeepCopy_deepcopy [OF assms(1)] assms(2-4)]
    deepcopy.copy_unchanged [OF DNSClass_DeepCopy_deepcopy [OF assms(1)] assms(2-4)] by metis

section \<open>An instance of the library\<close>

text \<open>
  Metadata with a name and a list of finalizers, and a \<open>PodDNSConfig\<close> copied slice by slice.
\<close>

type_synonym sample_meta = "string \<times> addr option"

interpretation options_slice: plain_slice OptionsCell options_at "\<lparr>opt_Name = [], opt_Value = None\<rparr>"
  by unfold_locales

definition sample_config_copy ::
  "('m, 'k, 'l) heap \<Rightarrow> config_struct \<Rightarrow> config_struct \<times> ('m, 'k, 'l) heap" where
  "sample_config_copy h c =
     (let (a, h) = copy_slice StringsCell strings_at [] h (gs_Nameservers c);
          (b, h) = copy_slice StringsCell strings_at [] h (gs_Searches c);
          (d, h) = copy_slice OptionsCell options_at \<lparr>opt_Name = [], opt_Value = None\<rparr> h (gs_Options c)
      in (\<lparr>gs_Nameservers = a, gs_Searches = b, gs_Options = d\<rparr>, h))"

definition sample_meta_copy ::
  "('m, 'k, 'l) heap \<Rightarrow> sample_meta \<Rightarrow> sample_meta \<times> ('m, 'k, 'l) heap" where
  "sample_meta_copy h m = (let (a, h) = copy_slice StringsCell strings_at [] h (snd m) in ((fst m, a), h))"

definition sample_library :: "(sample_meta, string, unit) library" where
  "sample_library =
     \<lparr>PodDNSConfig_DeepCopyInto = sample_config_copy, Condition_DeepCopyInto = (\<lambda>h c. (c, h)),
      ObjectMeta_DeepCopyInto = sample_meta_copy, ListMeta_DeepCopyInto = (\<lambda>h m. (m, h)),
      zero_ObjectMeta = ([], None), zero_ListMeta = []\<rparr>"

definition sample_meta_val :: "('m, 'k, 'l) heap \<Rightarrow> sample_meta \<Rightarrow> string \<times> string slice" where
  "sample_meta_val h m = (fst m, strings_val h (snd m))"

definition sample_meta_reach :: "('m, 'k, 'l) heap \<Rightarrow> sample_meta \<Rightarrow> addr set" where
  "sample_meta_reach h m = strings_reach h (snd m)"

lemma plain_deepcopy: "deepcopy plain_val plain_reach (\<lambda>h x. (x, h))"
  by (rule deepcopyI [OF plain_object]) (simp add: copied_def plain_val_def plain_reach_def extends_refl)

lemma sample_config_deepcopy: "deepcopy config_val config_reach sample_config_copy"
proof (rule deepcopyI)
  show "object config_val config_reach" by unfold_locales
  fix h h' :: "('a, 'b, 'c) heap" and i out
  assume h: "good h" "config_reach h i \<subseteq> dom (cells h)" "sample_config_copy h i = (out, h')"
  obtain a h1 b h2 d where
    c1: "copy_slice StringsCell strings_at [] h (gs_Nameservers i) = (a, h1)" and
    c2: "copy_slice StringsCell strings_at [] h1 (gs_Searches i) = (b, h2)" and
    c3: "copy_slice OptionsCell options_at \<lparr>opt_Name = [], opt_Value = None\<rparr> h2 (gs_Options i) = (d, h')" and
    out: "out = \<lparr>gs_Nameservers = a, gs_Searches = b, gs_Options = d\<rparr>"
    using h(3) by (auto simp: sample_config_copy_def Let_def split: prod.splits)
  have r: "strings_reach h (gs_Nameservers i) \<subseteq> dom (cells h)"
    "strings_reach h (gs_Searches i) \<subseteq> dom (cells h)"
    "ptr_reach options_at plain_reach h (gs_Options i) \<subseteq> dom (cells h)"
    using h(2) by (simp_all add: config_reach_def)
  note s1 = strings_slice.slice.copy_step [OF extends_refl [OF h(1)] r(1) c1]
  note s2 = strings_slice.slice.copy_step [OF s1(2) r(2) c2]
  note s3 = options_slice.slice.copy_step [OF s2(2) r(3) c3]
  note k = strings_slice.po.ptr.copied_kept
  have "copied strings_val strings_reach h (gs_Nameservers i) h' a"
    "copied strings_val strings_reach h (gs_Searches i) h' b"
    using k [OF k [OF s1(3) s2(1)] s3(1)] k [OF s2(3) s3(1)] .
  then show "extends h h' \<and> copied config_val config_reach h i h' out"
    using s3(2,3) by (simp add: copied_def config_val_def config_reach_def out)
qed

lemma sample_meta_deepcopy: "deepcopy sample_meta_val sample_meta_reach sample_meta_copy"
proof (rule deepcopyI)
  show "object sample_meta_val sample_meta_reach"
    by unfold_locales
      (auto simp: sample_meta_val_def sample_meta_reach_def dest: strings_slice.po.ptr_local)
  fix h h' :: "('a, 'b, 'c) heap" and i out
  assume h: "good h" "sample_meta_reach h i \<subseteq> dom (cells h)" "sample_meta_copy h i = (out, h')"
  obtain a where c: "copy_slice StringsCell strings_at [] h (snd i) = (a, h')" and out: "out = (fst i, a)"
    using h(3) by (auto simp: sample_meta_copy_def split: prod.splits)
  show "extends h h' \<and> copied sample_meta_val sample_meta_reach h i h' out"
    using strings_slice.slice.copy_step [OF extends_refl [OF h(1)] _ c] h(2)
    by (simp add: copied_def sample_meta_val_def sample_meta_reach_def out)
qed

lemma sample_contract:
  "library_contract sample_meta_val sample_meta_reach plain_val plain_reach sample_library"
  by (simp add: library_contract_def sample_library_def sample_config_deepcopy sample_meta_deepcopy
      plain_deepcopy)

interpretation sample_items: slice_copy ClassesCell classes_at "class_val sample_meta_val"
    "class_reach sample_meta_reach" "DNSClass_DeepCopyInto sample_library" "zero_class ([], None)"
  by (intro slice_copy.intro class_deepcopy [OF sample_contract] classes_cell.cell_type_axioms)

definition sample_struct :: "sample_meta class_struct" where
  "sample_struct =
     \<lparr>os_TypeMeta = (''config.kubedns-shepherd.io/v1alpha1'', ''DNSClass''), os_ObjectMeta = (''dns'', None),
      os_Spec = \<lparr>ss_AllowedNamespaces = None, ss_DisabledNamespaces = Some 0, ss_AllowedDNSPolicies = Some 1,
        ss_DNSPolicy = DNSNone, ss_DNSConfig = Some 3\<rparr>,
      os_Status = \<lparr>ts_Conditions = None, ts_State = StateReady, ts_DiscoveredFields = Some 5\<rparr>\<rparr>"

definition sample_heap :: "(sample_meta, string, unit) heap" where
  "sample_heap =
     \<lparr>cells = [0 \<mapsto> StringsCell [''kube-system''], 1 \<mapsto> StringsCell [DNSClusterFirst],
        2 \<mapsto> StringsCell [''{{ .podNamespace }}.svc.{{ .clusterDomain }}''],
        3 \<mapsto> ConfigCell \<lparr>gs_Nameservers = None, gs_Searches = Some 2, gs_Options = None\<rparr>,
        4 \<mapsto> StringsCell [''10.96.0.10''],
        5 \<mapsto> FieldsCell \<lparr>fs_Nameservers = Some 4, fs_ClusterDomain = ''cluster.local''\<rparr>,
        6 \<mapsto> ClassCell sample_struct, 7 \<mapsto> ClassesCell [sample_struct],
        8 \<mapsto> ListCell \<lparr>ls_TypeMeta = ([], ''DNSClassList''), ls_ListMeta = ''1'', ls_Items = Some 7\<rparr>],
      next_addr = 9\<rparr>"

lemma sample_heap_good: "good sample_heap"
  by (simp add: good_def sample_heap_def)

lemma sample_struct_reach: "class_reach sample_meta_reach sample_heap sample_struct = {0, 1, 2, 3, 4, 5}"
  by (auto simp: class_reach_def sample_meta_reach_def spec_reach_def status_reach_def config_reach_def
      fields_reach_def ptr_reach_def plain_reach_def sample_struct_def sample_heap_def config_at_def
      fields_at_def)

lemma sample_reads:
  "class_at m sample_heap 6 = sample_struct" "classes_at sample_heap 7 = [sample_struct]"
  "ls_Items (list_at k sample_heap 8) = Some 7" "dom (cells sample_heap) = {0, 1, 2, 3, 4, 5, 6, 7, 8}"
  by (auto simp: sample_heap_def class_at_def classes_at_def list_at_def)

lemma sample_reach:
  "class_ptr_reach sample_meta_reach sample_library sample_heap (Some 6) \<subseteq> dom (cells sample_heap)"
  "list_ptr_reach sample_meta_reach plain_reach sample_library sample_heap (Some 8) \<subseteq> dom (cells sample_heap)"
  by (simp_all add: ptr_reach_def list_reach_def items_reach_def plain_reach_def sample_reads
      sample_struct_reach)

theorem DNSClassList_DeepCopy_equal_witness:
  "\<exists>b h'. DNSClassList_DeepCopyObject sample_library sample_heap (Some 8) = (ListObject b, h') \<and>
     list_ptr_val sample_meta_val plain_val sample_library h' b =
       list_ptr_val sample_meta_val plain_val sample_library sample_heap (Some 8)"
proof -
  obtain obj h' where c: "DNSClassList_DeepCopyObject sample_library sample_heap (Some 8) = (obj, h')"
    by fastforce
  show ?thesis
    using DNSClassList_DeepCopy_equal [OF sample_contract sample_heap_good sample_reach(2) c] c
    by (cases obj) auto
qed

theorem DNSClass_DeepCopy_independent_witness:
  "\<exists>b h'. DNSClass_DeepCopy sample_library sample_heap (Some 6) = (Some b, h') \<and>
     class_ptr_val sample_meta_val sample_library (store b (ClassCell (zero_class ([], None))) h') (Some 6) =
       class_ptr_val sample_meta_val sample_library sample_heap (Some 6) \<and>
     class_ptr_val sample_meta_val sample_library (store 3 (ConfigCell zero_config) h') (Some b) =
       class_ptr_val sample_meta_val sample_library sample_heap (Some 6)"
proof -
  obtain a h' where c: "DNSClass_DeepCopy sample_library sample_heap (Some 6) = (a, h')" by fastforce
  have "a \<noteq> None" using new_copy_nil [OF c [unfolded DNSClass_DeepCopy_def]] by simp
  then obtain b where a: "a = Some b" by auto
  have 3: "3 \<in> dom (cells sample_heap)" by (simp add: sample_heap_def)
  have "\<forall>p. p \<notin> class_ptr_reach sample_meta_reach sample_library h' a \<longrightarrow>
      cells (store b (ClassCell (zero_class ([], None))) h') p = cells h' p"
    by (simp add: a ptr_reach_def)
  moreover have "\<forall>p. p \<notin> dom (cells sample_heap) \<longrightarrow> cells (store 3 (ConfigCell zero_config) h') p = cells h' p"
    using 3 by auto
  ultimately show ?thesis
    using DNSClass_DeepCopy_independent [OF sample_contract sample_heap_good sample_reach(1) c] c a by blast
qed

end
