(* ===== verification/Pod_Webhook_Store.thy ===== *)
theory Pod_Webhook_Store
  imports Deep_Copy Pod_Webhook
begin

text \<open>
  \<open>configureDNSForPod\<close> of \<open>internal/webhook/pods/pods_webhook.go\<close> on the heap of \<open>Go_Heap\<close>:
  the class is a struct passed by value whose \<open>DNSConfig\<close> is still the caller's, and the pod ends
  up with that very pointer. The lemmas show that the value model of \<open>Pod_Webhook\<close> is what one
  reads off this heap, and which objects of the caller the call changes.
\<close>

section \<open>The function on the heap\<close>

record 'r pod_struct =
  ps_Namespace :: string
  ps_Annotations :: "(string \<rightharpoonup> string) option"
  ps_DNSPolicy :: DNSPolicy_t
  ps_DNSConfig :: "addr option"
  ps_Rest :: 'r

definition updateAnnotation_struct :: "'r pod_struct \<Rightarrow> string \<Rightarrow> string \<Rightarrow> 'r pod_struct" where
  "updateAnnotation_struct pod key v =
     (let annotations = (case ps_Annotations pod of None \<Rightarrow> Map.empty | Some a \<Rightarrow> a)
      in pod\<lparr>ps_Annotations := Some (annotations(key \<mapsto> v))\<rparr>)"

text \<open>The last assignments; \<open>name\<close> reads the name off the metadata.\<close>

definition finish_struct :: "('m \<Rightarrow> string) \<Rightarrow> 'r pod_struct \<Rightarrow> 'm class_struct \<Rightarrow> 'r pod_struct" where
  "finish_struct name pod dnsClass =
     updateAnnotation_struct (pod\<lparr>ps_DNSPolicy := ss_DNSPolicy (os_Spec dnsClass)\<rparr>)
       DNSClassName (name (os_ObjectMeta dnsClass))"

text \<open>From the loop over the search templates on, with \<open>dnsClass.Spec.DNSConfig\<close> the address \<open>p\<close>.\<close>

definition apply_config ::
  "('m \<Rightarrow> string) \<Rightarrow> template_engine \<Rightarrow> params \<Rightarrow> addr \<Rightarrow> addr \<Rightarrow> ('m, 'k, 'l) heap \<Rightarrow> 'r pod_struct \<Rightarrow>
   'm class_struct \<Rightarrow> 'r pod_struct \<times> ('m, 'k, 'l) heap \<times> dns_error option" where
  "apply_config name render m d p h pod dnsClass =
     (case render_searches render m (elems (strings_val h (gs_Searches (config_at h p)))) [] of
        Inl e \<Rightarrow> (pod, h, Some e)
      | Inr searches \<Rightarrow>
          (let (s, h) = alloc (StringsCell searches) h;
               h = store p (ConfigCell ((config_at h p)\<lparr>gs_Searches := Some s\<rparr>)) h;
               pod = pod\<lparr>ps_DNSConfig := Some p\<rparr>
           in if gs_Nameservers (config_at h p) = None \<and> fs_Nameservers (fields_at h d) = None
              then (pod, h, Some NoNameservers)
              else
                (let h = (if gs_Nameservers (config_at h p) = None
                          then store p (ConfigCell ((config_at h p)
                                 \<lparr>gs_Nameservers := fs_Nameservers (fields_at h d)\<rparr>)) h
                          else h)
                 in (finish_struct name pod dnsClass, h, None))))"

definition configureDNSForPod_store ::
  "('m \<Rightarrow> string) \<Rightarrow> template_engine \<Rightarrow> ('m, 'k, 'l) heap \<Rightarrow> 'r pod_struct \<Rightarrow> 'm class_struct \<Rightarrow>
   ('r pod_struct \<times> ('m, 'k, 'l) heap \<times> dns_error option) outcome" where
  "configureDNSForPod_store name render h pod dnsClass =
     (if ss_DNSPolicy (os_Spec dnsClass) = DNSNone then
        (case ts_DiscoveredFields (os_Status dnsClass) of
           None \<Rightarrow> Panic
         | Some d \<Rightarrow>
             (let m = parameterMap (ps_Namespace pod) (fs_ClusterDomain (fields_at h d));
                  (p, h) = (case ss_DNSConfig (os_Spec dnsClass) of
                              None \<Rightarrow> alloc (ConfigCell zero_config) h | Some p \<Rightarrow> (p, h))
              in Ret (apply_config name render m d p h pod dnsClass)))
      else Ret (finish_struct name pod dnsClass, h, None))"

section \<open>Values\<close>

definition pod_val :: "('m, 'k, 'l) heap \<Rightarrow> 'r pod_struct \<Rightarrow> 'r Pod" where
  "pod_val h pod =
     \<lparr>pod_Namespace = ps_Namespace pod, pod_Annotations = ps_Annotations pod,
      pod_DNSPolicy = ps_DNSPolicy pod, pod_DNSConfig = config_ptr_val h (ps_DNSConfig pod),
      pod_Rest = ps_Rest pod\<rparr>"

text \<open>The class, with the parts of the metadata the model keeps read by \<open>meta\<close>.\<close>

definition class_object_val ::
  "('m \<Rightarrow> string \<times> string \<times> int \<times> string) \<Rightarrow> ('m, 'k, 'l) heap \<Rightarrow> 'm class_struct \<Rightarrow> DNSClass" where
  "class_object_val meta h c =
     \<lparr>dc_GroupKind = os_TypeMeta c, dc_Name = fst (meta (os_ObjectMeta c)),
      dc_Namespace = fst (snd (meta (os_ObjectMeta c))), dc_Generation = fst (snd (snd (meta (os_ObjectMeta c)))),
      dc_ResourceVersion = snd (snd (snd (meta (os_ObjectMeta c)))),
      dc_Spec = spec_val h (os_Spec c), dc_Status = status_val h (os_Status c)\<rparr>"

text \<open>Pointers point to cells of their type.\<close>

definition strings_typed :: "('m, 'k, 'l) heap \<Rightarrow> addr option \<Rightarrow> bool" where
  "strings_typed h a \<longleftrightarrow> (case a of None \<Rightarrow> True | Some p \<Rightarrow> \<exists>xs. cells h p = Some (StringsCell xs))"

definition options_typed :: "('m, 'k, 'l) heap \<Rightarrow> addr option \<Rightarrow> bool" where
  "options_typed h a \<longleftrightarrow> (case a of None \<Rightarrow> True | Some p \<Rightarrow> \<exists>xs. cells h p = Some (OptionsCell xs))"

definition config_typed :: "('m, 'k, 'l) heap \<Rightarrow> addr option \<Rightarrow> bool" where
  "config_typed h a \<longleftrightarrow>
     (case a of None \<Rightarrow> True
      | Some p \<Rightarrow> \<exists>c. cells h p = Some (ConfigCell c) \<and> strings_typed h (gs_Nameservers c) \<and>
          strings_typed h (gs_Searches c) \<and> options_typed h (gs_Options c))"

definition fields_typed :: "('m, 'k, 'l) heap \<Rightarrow> addr option \<Rightarrow> bool" where
  "fields_typed h a \<longleftrightarrow>
     (case a of None \<Rightarrow> True
      | Some p \<Rightarrow> \<exists>f. cells h p = Some (FieldsCell f) \<and> strings_typed h (fs_Nameservers f))"

definition class_typed :: "('m, 'k, 'l) heap \<Rightarrow> 'm class_struct \<Rightarrow> bool" where
  "class_typed h c \<longleftrightarrow>
     config_typed h (ss_DNSConfig (os_Spec c)) \<and> fields_typed h (ts_DiscoveredFields (os_Status c))"

lemma strings_typed_ext:
  assumes "strings_typed h a" and "\<And>p xs. cells h p = Some (StringsCell xs) \<Longrightarrow> cells h' p = cells h p"
  shows "strings_val h' a = strings_val h a"
proof (cases a)
  case (Some p)
  then obtain xs where "cells h p = Some (StringsCell xs)" using assms(1) by (auto simp: strings_typed_def)
  then show ?thesis
    using assms(2) [of p xs] Some by (simp add: ptr_val_def plain_val_def)
qed (simp add: ptr_val_def)

lemma options_typed_ext:
  assumes "options_typed h a" and "\<And>p xs. cells h p = Some (OptionsCell xs) \<Longrightarrow> cells h' p = cells h p"
  shows "ptr_val options_at plain_val h' a = ptr_val options_at plain_val h a"
proof (cases a)
  case (Some p)
  then obtain xs where "cells h p = Some (OptionsCell xs)" using assms(1) by (auto simp: options_typed_def)
  then show ?thesis
    using assms(2) [of p xs] Some by (simp add: ptr_val_def plain_val_def)
qed (simp add: ptr_val_def)

section \<open>What the function writes\<close>

text \<open>Only the cell of the class's \<open>DNSConfig\<close> changes; everything else it writes is new.\<close>

lemma apply_config_frame:
  assumes "good h" and "apply_config name render m d p h pod c = (pod', h', e)"
    and "q \<in> dom (cells h)" and "q \<noteq> p"
  shows "cells h' q = cells h q"
proof -
  have "q < next_addr h" using assms(1,3) by (metis domIff good_def linorder_not_le)
  then show ?thesis
    using assms(2,4) by (auto simp: apply_config_def alloc_def store_def Let_def split: sum.splits if_splits)
qed

lemma configure_frame:
  assumes "good h" and "configureDNSForPod_store name render h pod c = Ret (pod', h', e)"
    and "q \<in> dom (cells h)" and "ss_DNSConfig (os_Spec c) \<noteq> Some q"
  shows "cells h' q = cells h q"
proof (cases "ss_DNSPolicy (os_Spec c) = DNSNone")
  case False
  then show ?thesis using assms(2) by (simp add: configureDNSForPod_store_def)
next
  case True
  then obtain d p h1 where p: "(case ss_DNSConfig (os_Spec c) of
      None \<Rightarrow> alloc (ConfigCell zero_config) h | Some p \<Rightarrow> (p, h)) = (p, h1)"
    and a: "apply_config name render (parameterMap (ps_Namespace pod) (fs_ClusterDomain (fields_at h d)))
      d p h1 pod c = (pod', h', e)"
    using assms(2) by (auto simp: configureDNSForPod_store_def Let_def split: option.splits prod.splits)
  show ?thesis
  proof (cases "ss_DNSConfig (os_Spec c)")
    case None
    then have al: "alloc (ConfigCell zero_config) h = (p, h1)" using p by simp
    note x = extends_alloc [OF assms(1) al]
    have "cells h1 q = cells h q"
      using extends_agree [OF x(1), of "{q}"] assms(3) by (simp add: agree_on_def)
    moreover have "q \<noteq> p" "q \<in> dom (cells h1)" using x(2) assms(3) extends_dom [OF x(1)] by auto
    ultimately show ?thesis using apply_config_frame [OF extends_good [OF x(1)] a] by simp
  next
    case (Some p')
    then have "p' = p" "h1 = h" using p by auto
    then show ?thesis using apply_config_frame [OF assms(1) _ assms(3)] a assms(4) Some by blast
  qed
qed

section \<open>The value model is what the heap holds\<close>

lemma store_store: "store p c (store p d h) = store p c h"
  by (simp add: store_def)

lemma apply_config_val:
  assumes h: "good h" "cells h p = Some (ConfigCell c0)" "config_typed h (Some p)" "fields_typed h (Some d)"
  shows "(case apply_config (fst \<circ> meta) render m d p h pod c of (pod', h', e) \<Rightarrow> (pod_val h' pod', e)) =
    (case render_searches render m (elems (Searches (config_val h c0))) [] of
       Inl e \<Rightarrow> (pod_val h pod, Some e)
     | Inr searches \<Rightarrow>
         (let cfg = (config_val h c0)\<lparr>Searches := Some searches\<rparr>;
              df = fields_val h (fields_at h d);
              pod = (pod_val h pod)\<lparr>pod_DNSConfig := Some cfg\<rparr>
          in if Nameservers cfg = None \<and> df_Nameservers df = None then (pod, Some NoNameservers)
             else
               (let cfg = (if Nameservers cfg = None then cfg\<lparr>Nameservers := df_Nameservers df\<rparr> else cfg);
                    pod = pod\<lparr>pod_DNSConfig := Some cfg\<rparr>
                in finish_pod pod (class_object_val meta h c))))"
proof (cases "render_searches render m (elems (Searches (config_val h c0))) []")
  case (Inl e)
  then show ?thesis using h(2) by (simp add: apply_config_def config_val_def)
next
  case (Inr searches)
  obtain s h2 where al: "alloc (StringsCell searches) h = (s, h2)" by fastforce
  note x = extends_alloc [OF h(1) al]
  obtain f where f: "cells h d = Some (FieldsCell f)" "strings_typed h (fs_Nameservers f)"
    using h(4) by (auto simp: fields_typed_def)
  have ty: "strings_typed h (gs_Nameservers c0)" "options_typed h (gs_Options c0)"
    using h(2,3) by (auto simp: config_typed_def)
  have old: "cells h2 q = cells h q" if "cells h q = Some z" for q z
    using extends_agree [OF x(1), of "{q}"] that by (auto simp: agree_on_def)
  have keep: "cells (store p (ConfigCell z) h2) q = cells h q" if "cells h q = Some w" "q \<noteq> p" for q w z
    using old [OF that(1)] that(2) by simp
  note vals = strings_typed_ext [OF ty(1)] strings_typed_ext [OF f(2)] options_typed_ext [OF ty(2)]
  have same: "strings_val (store p (ConfigCell z) h2) (gs_Nameservers c0) = strings_val h (gs_Nameservers c0)"
    "strings_val (store p (ConfigCell z) h2) (fs_Nameservers f) = strings_val h (fs_Nameservers f)"
    "ptr_val options_at plain_val (store p (ConfigCell z) h2) (gs_Options c0) =
      ptr_val options_at plain_val h (gs_Options c0)" for z
    by (rule vals; use keep h(2) in fastforce)+
  have ps: "p \<noteq> s" "d \<noteq> p" "d \<noteq> s" using x(2) h(2) f(1) by auto
  have at: "config_at h p = c0" "config_at h2 p = c0" "fields_at h d = f" "config_at (store p (ConfigCell z) h2) p = z"
    "fields_at (store p (ConfigCell z) h2) d = f" for z
    using h(2) old [OF h(2)] f(1) old [OF f(1)] ps by simp_all
  have new: "strings_val (store p (ConfigCell z) h2) (Some s) = Some searches" for z
    using x(3) ps by (simp add: ptr_val_def plain_val_def)
  have ptr: "config_ptr_val (store p (ConfigCell z) h2) (Some p) = Some (config_val (store p (ConfigCell z) h2) z)" for z
    by (simp add: ptr_val_def at)
  have none: "strings_val h' None = None" for h' by (simp add: ptr_val_def)
  have nil: "strings_val h' a = None \<longleftrightarrow> a = None" for h' a by (simp add: ptr_val_def)
  have "render_searches render m (elems (strings_val h (gs_Searches c0))) [] = Inr searches"
    using Inr by (simp add: config_val_def)
  then show ?thesis
    using al
    by (simp add: apply_config_def at store_store Let_def pod_val_def ptr config_val_def fields_val_def
        same new none nil finish_pod_def finish_struct_def updateAnnotation_def updateAnnotation_struct_def
        class_object_val_def spec_val_def split: option.splits)
qed

lemma start_config:
  assumes "good h" and "config_typed h a"
    and "(case a of None \<Rightarrow> alloc (ConfigCell zero_config) h | Some p \<Rightarrow> (p, h)) = (p, h1)"
  shows "cells h1 p = Some (ConfigCell (config_at h1 p))" "extends h h1" "config_typed h1 (Some p)"
    "config_val h1 (config_at h1 p) =
      (case config_ptr_val h a of None \<Rightarrow> empty_PodDNSConfig | Some g \<Rightarrow> g)"
proof -
  have "cells h1 p = Some (ConfigCell (config_at h1 p)) \<and> extends h h1 \<and> config_typed h1 (Some p) \<and>
    config_val h1 (config_at h1 p) =
      (case config_ptr_val h a of None \<Rightarrow> empty_PodDNSConfig | Some g \<Rightarrow> g)"
  proof (cases a)
    case None
    then have "alloc (ConfigCell zero_config) h = (p, h1)" using assms(3) by simp
    note x = extends_alloc [OF assms(1) this]
    show ?thesis
      using x None by (simp add: config_typed_def zero_config_def strings_typed_def options_typed_def
          config_val_def ptr_val_def empty_PodDNSConfig_def)
  next
    case (Some q)
    then show ?thesis
      using assms by (auto simp: config_typed_def ptr_val_def extends_refl)
  qed
  then show "cells h1 p = Some (ConfigCell (config_at h1 p))" "extends h h1" "config_typed h1 (Some p)"
    "config_val h1 (config_at h1 p) =
      (case config_ptr_val h a of None \<Rightarrow> empty_PodDNSConfig | Some g \<Rightarrow> g)" by blast+
qed

lemma fields_kept:
  assumes "extends h h1" and "fields_typed h (Some d)"
  shows "fields_typed h1 (Some d)" "fields_val h1 (fields_at h1 d) = fields_val h (fields_at h d)"
proof -
  obtain f where f: "cells h d = Some (FieldsCell f)" "strings_typed h (fs_Nameservers f)"
    using assms(2) by (auto simp: fields_typed_def)
  have k: "cells h1 q = Some z" if "cells h q = Some z" for q z
    using extends_agree [OF assms(1), of "{q}"] that by (auto simp: agree_on_def)
  have "strings_typed h1 (fs_Nameservers f)"
    using f(2) k by (auto simp: strings_typed_def split: option.splits)
  then show "fields_typed h1 (Some d)" using k [OF f(1)] by (simp add: fields_typed_def)
  have "strings_val h1 (fs_Nameservers f) = strings_val h (fs_Nameservers f)"
    by (rule strings_typed_ext [OF f(2)]) (simp add: k)
  then show "fields_val h1 (fields_at h1 d) = fields_val h (fields_at h d)"
    using f(1) k [OF f(1)] by (simp add: fields_val_def)
qed

definition outcome_val ::
  "'r pod_struct \<times> ('m, 'k, 'l) heap \<times> dns_error option \<Rightarrow> 'r Pod \<times> dns_error option" where
  "outcome_val r = (case r of (pod, h, e) \<Rightarrow> (pod_val h pod, e))"

lemma configureDNSForPod_store_value:
  assumes "good h" and "class_typed h c" and "config_ptr_reach h (ps_DNSConfig pod) \<subseteq> dom (cells h)"
  shows "obind (configureDNSForPod_store (fst \<circ> meta) render h pod c) (\<lambda>r. Ret (outcome_val r)) =
    configureDNSForPod render (pod_val h pod) (class_object_val meta h c)"
proof (cases "ss_DNSPolicy (os_Spec c) = DNSNone")
  case False
  then show ?thesis
    by (simp add: configureDNSForPod_store_def configureDNSForPod_def class_object_val_def spec_val_def
        outcome_val_def finish_struct_def finish_pod_def pod_val_def updateAnnotation_def
        updateAnnotation_struct_def)
next
  case policy: True
  show ?thesis
  proof (cases "ts_DiscoveredFields (os_Status c)")
    case None
    then show ?thesis using policy
      by (simp add: configureDNSForPod_store_def configureDNSForPod_def class_object_val_def spec_val_def
          status_val_def ptr_val_def)
  next
    case (Some d)
    obtain p h1 where p: "(case ss_DNSConfig (os_Spec c) of
        None \<Rightarrow> alloc (ConfigCell zero_config) h | Some p \<Rightarrow> (p, h)) = (p, h1)" by fastforce
    note s = start_config [OF assms(1) assms(2)[unfolded class_typed_def, THEN conjunct1] p]
    have typed: "fields_typed h (Some d)" using assms(2) Some by (simp add: class_typed_def)
    note f = fields_kept [OF s(2) this]
    have pod: "pod_val h1 pod = pod_val h pod"
      using config_pointer.ptr.kept(1) [OF s(2) assms(3)] by (simp add: pod_val_def)
    have fin: "finish_pod pod' (class_object_val meta h1 c) = finish_pod pod' (class_object_val meta h c)"
      for pod' :: "'r Pod" by (simp add: finish_pod_def class_object_val_def spec_val_def)
    have df: "df_ClusterDomain (fields_val h (fields_at h d)) = fs_ClusterDomain (fields_at h d)"
      by (simp add: fields_val_def)
    let ?m = "parameterMap (ps_Namespace pod) (fs_ClusterDomain (fields_at h d))"
    let ?cfg = "case config_ptr_val h (ss_DNSConfig (os_Spec c)) of None \<Rightarrow> empty_PodDNSConfig | Some g \<Rightarrow> g"
    note val = apply_config_val [OF extends_good [OF s(2)] s(1,3) f(1), where render = render and meta = meta
        and c = c and pod = pod and m = ?m, unfolded s(4) pod fin f(2)]
    have fields: "DNSPolicy (dc_Spec (class_object_val meta h c)) = DNSNone"
      "DNSConfig (dc_Spec (class_object_val meta h c)) = config_ptr_val h (ss_DNSConfig (os_Spec c))"
      "st_DiscoveredFields (dc_Status (class_object_val meta h c)) = Some (fields_val h (fields_at h d))"
      "pod_Namespace (pod_val h pod) = ps_Namespace pod"
      using policy Some
      by (simp_all add: class_object_val_def spec_val_def status_val_def pod_val_def ptr_val_def)
    have "configureDNSForPod_store (fst \<circ> meta) render h pod c =
        Ret (apply_config (fst \<circ> meta) render ?m d p h1 pod c)"
      using policy Some p by (simp add: configureDNSForPod_store_def)
    then show ?thesis
      unfolding configureDNSForPod_def fields df
      using val by (cases "render_searches render ?m (elems (Searches ?cfg)) []")
        (simp_all add: outcome_val_def df Let_def split: prod.splits)
  qed
qed

text \<open>
  Refinement: on a heap whose pointers are well typed, \<open>configureDNSForPod\<close> run on the heap
  (the pod takes over the class's \<open>DNSConfig\<close> pointer, and the search list and the nameservers are
  written through it) panics, fails or succeeds exactly as the value model does, and the pod it
  leaves reads as the value model's pod.
\<close>

theorem configureDNSForPod_store_refines:
  assumes "good h" and "class_typed h c" and "config_ptr_reach h (ps_DNSConfig pod) \<subseteq> dom (cells h)"
  shows "obind (configureDNSForPod_store (fst \<circ> meta) render h pod c) (\<lambda>r. Ret (outcome_val r)) =
    configureDNSForPod render (pod_val h pod) (class_object_val meta h c)"
  using assms by (rule configureDNSForPod_store_value)

section \<open>Whose objects the call changes\<close>

definition struct_searches :: "('m, 'k, 'l) heap \<Rightarrow> 'm class_struct \<Rightarrow> string list" where
  "struct_searches h c = (case spec_val h (os_Spec c) of s \<Rightarrow>
     (case DNSConfig s of None \<Rightarrow> [] | Some g \<Rightarrow> elems (Searches g)))"

lemma struct_searches_at:
  "ss_DNSConfig (os_Spec c) = Some p \<Longrightarrow>
   struct_searches h c = elems (strings_val h (gs_Searches (config_at h p)))"
  by (simp add: struct_searches_def spec_val_def ptr_val_def config_val_def)

lemma apply_config_success:
  assumes "good h" and "p \<in> dom (cells h)" and "apply_config name render m d p h pod c = (pod', h', None)"
  shows "ps_DNSConfig pod' = Some p"
    "render_searches render m (elems (strings_val h (gs_Searches (config_at h p)))) [] =
       Inr (elems (strings_val h' (gs_Searches (config_at h' p))))"
proof -
  obtain searches where r: "render_searches render m (elems (strings_val h (gs_Searches (config_at h p)))) [] = Inr searches"
    using assms(3) by (cases "render_searches render m (elems (strings_val h (gs_Searches (config_at h p)))) []")
      (simp_all add: apply_config_def)
  obtain s h2 where al: "alloc (StringsCell searches) h = (s, h2)" by fastforce
  note x = extends_alloc [OF assms(1) al]
  have ps: "p \<noteq> s" using x(2) assms(2) by auto
  have at: "config_at (store p (ConfigCell z) h2) p = z" for z by simp
  have new: "strings_val (store p (ConfigCell z) h2) (Some s) = Some searches" for z
    using x(3) ps by (simp add: ptr_val_def plain_val_def)
  have "ps_DNSConfig pod' = Some p \<and> elems (strings_val h' (gs_Searches (config_at h' p))) = searches"
    using assms(3) r al
    by (auto simp: apply_config_def Let_def at new store_store finish_struct_def updateAnnotation_struct_def
        split: if_splits)
  then show "ps_DNSConfig pod' = Some p"
    "render_searches render m (elems (strings_val h (gs_Searches (config_at h p)))) [] =
       Inr (elems (strings_val h' (gs_Searches (config_at h' p))))" using r by auto
qed

definition struct_params :: "('m, 'k, 'l) heap \<Rightarrow> 'r pod_struct \<Rightarrow> addr \<Rightarrow> params" where
  "struct_params h pod d = parameterMap (ps_Namespace pod) (fs_ClusterDomain (fields_at h d))"

lemma configure_shares:
  assumes "good h" and "ss_DNSConfig (os_Spec c) = Some p" and "p \<in> dom (cells h)"
    and "ss_DNSPolicy (os_Spec c) = DNSNone" and "ts_DiscoveredFields (os_Status c) = Some d"
    and "configureDNSForPod_store name render h pod c = Ret (pod', h', None)"
  shows "ps_DNSConfig pod' = Some p"
    "render_searches render (struct_params h pod d) (struct_searches h c) [] = Inr (struct_searches h' c)"
proof -
  have "apply_config name render (struct_params h pod d) d p h pod c = (pod', h', None)"
    using assms(6) by (simp add: configureDNSForPod_store_def assms(2,4,5) struct_params_def)
  from apply_config_success [OF assms(1,3) this] show "ps_DNSConfig pod' = Some p"
    "render_searches render (struct_params h pod d) (struct_searches h c) [] = Inr (struct_searches h' c)"
    by (simp_all add: struct_searches_at assms(2))
qed

lemma configure_no_panic:
  "ts_DiscoveredFields (os_Status c) \<noteq> None \<Longrightarrow> configureDNSForPod_store name render h pod c \<noteq> Panic"
  by (auto simp: configureDNSForPod_store_def Let_def split: prod.splits)

lemma configure_good:
  assumes "good h" and "p \<in> dom (cells h)" and "ss_DNSConfig (os_Spec c) = Some p"
    and "configureDNSForPod_store name render h pod c = Ret (pod', h', e)"
  shows "good h' \<and> dom (cells h) \<subseteq> dom (cells h')"
proof -
  have "p < next_addr h" using assms(1,2) by (metis domIff good_def linorder_not_le)
  then show ?thesis
    using assms(1,3,4)
    by (auto simp: configureDNSForPod_store_def apply_config_def Let_def alloc_def store_def good_def
        split: if_splits option.splits sum.splits)
qed

text \<open>
  C27. The class object handed to \<open>configureDNSForPod\<close> does not survive it: with the policy
  \<open>None\<close> and a \<open>DNSConfig\<close> of its own, the pod takes over the class's pointer, and the class's
  search templates are replaced by the search list rendered for that pod. A second pod configured
  with the same object gets the first pod's pointer, and its search list is rendered from the
  first pod's and not from the templates. The handler is right only because every request lists
  its own copies.
\<close>

theorem configureDNSForPod_overwrites_class:
  assumes "good h" and "ss_DNSConfig (os_Spec c) = Some p" and "p \<in> dom (cells h)"
    and "ss_DNSPolicy (os_Spec c) = DNSNone" and "ts_DiscoveredFields (os_Status c) = Some d"
    and "configureDNSForPod_store name render h pod1 c = Ret (pod1', h1, None)"
    and "configureDNSForPod_store name render h1 pod2 c = Ret (pod2', h2, None)"
  shows "ps_DNSConfig pod1' = Some p \<and> ps_DNSConfig pod2' = Some p \<and>
    render_searches render (struct_params h pod1 d) (struct_searches h c) [] = Inr (struct_searches h1 c) \<and>
    render_searches render (struct_params h1 pod2 d) (struct_searches h1 c) [] = Inr (struct_searches h2 c)"
proof -
  have g: "good h1" "p \<in> dom (cells h1)" using configure_good [OF assms(1,3,2,6)] assms(3) by auto
  show ?thesis
    using configure_shares [OF assms(1-6)] configure_shares [OF g(1) assms(2) g(2) assms(4,5,7)] by simp
qed

text \<open>
  With the list the handler works on a deep copy of the cached one (as the manager's client
  hands it out), configuring a pod with any class of the copy leaves the cached list as it was,
  through every pointer, whatever the outcome of the call.
\<close>

theorem webhook_leaves_cache_unchanged:
  assumes "library_contract mv mr kv kr L" and "good h"
    and "list_ptr_reach mr kr L h (Some a) \<subseteq> dom (cells h)"
    and "DNSClassList_DeepCopy L h (Some a) = (Some b, h1)"
    and "ls_Items (list_at (zero_ListMeta L) h1 b) = Some q" and "c \<in> set (classes_at h1 q)"
    and "configureDNSForPod_store name render h1 pod c = Ret (pod', h2, e)"
  shows "list_ptr_val mv kv L h2 (Some a) = list_ptr_val mv kv L h (Some a)"
proof -
  note d = DNSClassList_DeepCopy_deepcopy [OF assms(1)]
  have e: "extends h h1" and fresh: "list_ptr_reach mr kr L h1 (Some b) \<subseteq> dom (cells h1) - dom (cells h)"
    using deepcopy.copy_extends [OF d assms(2-4)] deepcopy.copy_fresh [OF d assms(2-4)] by blast+
  have "class_reach mr h1 c \<subseteq> list_ptr_reach mr kr L h1 (Some b)"
    using assms(5,6) by (auto simp: ptr_reach_def list_reach_def items_reach_def)
  moreover have "p \<in> class_reach mr h1 c" if "ss_DNSConfig (os_Spec c) = Some p" for p
    using that by (simp add: class_reach_def spec_reach_def ptr_reach_def)
  ultimately have other: "ss_DNSConfig (os_Spec c) \<noteq> Some r" if "r \<in> dom (cells h)" for r
    using that fresh by blast
  have "cells h2 r = cells h r" if "r \<in> dom (cells h)" for r
    using configure_frame [OF extends_good [OF e] assms(7) _ other [OF that]] extends_dom [OF e]
      extends_agree [OF e, of "{r}"] that by (auto simp: agree_on_def)
  then have "agree_on (list_ptr_reach mr kr L h (Some a)) h h2"
    using assms(3) unfolding agree_on_def by blast
  then show ?thesis by (rule object.val_local [OF deepcopy.axioms(1) [OF d]])
qed

section \<open>Instances\<close>

definition sample_engine :: template_engine where
  "sample_engine s m =
     Inr (if s = ''{{ .podNamespace }}.svc.{{ .clusterDomain }}''
          then the (m ''podNamespace'') @ ''.svc.'' @ the (m ''clusterDomain'') else s)"

definition sample_pod_in :: "string \<Rightarrow> unit pod_struct" where
  "sample_pod_in ns = \<lparr>ps_Namespace = ns, ps_Annotations = None, ps_DNSPolicy = DNSClusterFirst,
     ps_DNSConfig = None, ps_Rest = ()\<rparr>"

lemma sample_class_typed: "class_typed sample_heap sample_struct"
  by (simp add: class_typed_def sample_struct_def config_typed_def fields_typed_def strings_typed_def
      options_typed_def sample_heap_def)

definition sample_meta_of :: "sample_meta \<Rightarrow> string \<times> string \<times> int \<times> string" where
  "sample_meta_of m = (fst m, [], 1, [])"

theorem configureDNSForPod_store_refines_witness:
  "obind (configureDNSForPod_store (fst \<circ> sample_meta_of) sample_engine sample_heap
       (sample_pod_in ''default'') sample_struct) (\<lambda>r. Ret (outcome_val r)) =
   configureDNSForPod sample_engine (pod_val sample_heap (sample_pod_in ''default''))
     (class_object_val sample_meta_of sample_heap sample_struct)"
proof -
  have "config_ptr_reach sample_heap (ps_DNSConfig (sample_pod_in ''default'')) \<subseteq> dom (cells sample_heap)"
    by (simp add: sample_pod_in_def ptr_reach_def)
  then show ?thesis by (rule configureDNSForPod_store_refines [OF sample_heap_good sample_class_typed])
qed

text \<open>Two pods of different namespaces, configured with the same object.\<close>

definition sample_twice :: "(string list \<times> string list) option" where
  "sample_twice =
     (case configureDNSForPod_store fst sample_engine sample_heap (sample_pod_in ''default'') sample_struct of
        Ret (pod1, h1, None) \<Rightarrow>
          (case configureDNSForPod_store fst sample_engine h1 (sample_pod_in ''blue'') sample_struct of
             Ret (pod2, h2, None) \<Rightarrow> Some (struct_searches h1 sample_struct, struct_searches h2 sample_struct)
           | _ \<Rightarrow> None)
      | _ \<Rightarrow> None)"

lemma sample_twice_value: "sample_twice = Some ([''default.svc.cluster.local''], [''default.svc.cluster.local''])"
  by code_simp

theorem configureDNSForPod_overwrites_class_witness:
  "\<exists>pod1 h1 pod2 h2.
     configureDNSForPod_store fst sample_engine sample_heap (sample_pod_in ''default'') sample_struct = Ret (pod1, h1, None) \<and>
     configureDNSForPod_store fst sample_engine h1 (sample_pod_in ''blue'') sample_struct = Ret (pod2, h2, None) \<and>
     ps_DNSConfig pod2 = ps_DNSConfig pod1 \<and> struct_searches h2 sample_struct = [''default.svc.cluster.local'']"
proof -
  obtain pod1 h1 pod2 h2 where
    c: "configureDNSForPod_store fst sample_engine sample_heap (sample_pod_in ''default'') sample_struct = Ret (pod1, h1, None)"
      "configureDNSForPod_store fst sample_engine h1 (sample_pod_in ''blue'') sample_struct = Ret (pod2, h2, None)"
    and s: "struct_searches h2 sample_struct = [''default.svc.cluster.local'']"
    using sample_twice_value
    by (auto simp: sample_twice_def split: outcome.splits option.splits prod.splits)
  have "ss_DNSConfig (os_Spec sample_struct) = Some 3" "3 \<in> dom (cells sample_heap)"
    "ss_DNSPolicy (os_Spec sample_struct) = DNSNone" "ts_DiscoveredFields (os_Status sample_struct) = Some 5"
    by (simp_all add: sample_struct_def sample_reads)
  from configureDNSForPod_overwrites_class [OF sample_heap_good this c] c s show ?thesis by auto
qed

theorem webhook_leaves_cache_unchanged_witness:
  "\<exists>b h1 c pod h2 e. DNSClassList_DeepCopy sample_library sample_heap (Some 8) = (Some b, h1) \<and>
     configureDNSForPod_store fst sample_engine h1 (sample_pod_in ''default'') c = Ret (pod, h2, e) \<and>
     list_ptr_val sample_meta_val plain_val sample_library h2 (Some 8) =
       list_ptr_val sample_meta_val plain_val sample_library sample_heap (Some 8)"
proof -
  obtain b' h1 where d: "DNSClassList_DeepCopy sample_library sample_heap (Some 8) = (b', h1)" by fastforce
  have "b' \<noteq> None" using new_copy_nil [OF d [unfolded DNSClassList_DeepCopy_def]] by simp
  then obtain b where b: "b' = Some b" by auto
  have v: "list_ptr_val sample_meta_val plain_val sample_library h1 (Some b) =
      list_ptr_val sample_meta_val plain_val sample_library sample_heap (Some 8)"
    using deepcopy.copy_val [OF DNSClassList_DeepCopy_deepcopy [OF sample_contract] sample_heap_good
        sample_reach(2) d] b by simp
  then obtain q c where q: "ls_Items (list_at (zero_ListMeta sample_library) h1 b) = Some q"
    and c: "classes_at h1 q = [c]"
    and cv: "class_val sample_meta_val h1 c = class_val sample_meta_val sample_heap sample_struct"
    by (auto simp: ptr_val_def list_val_def sample_reads items_val_def)
  have "ts_DiscoveredFields (os_Status c) \<noteq> None"
    using cv by (auto simp: class_val_def status_val_def ptr_val_def sample_struct_def)
  then have "configureDNSForPod_store fst sample_engine h1 (sample_pod_in ''default'') c \<noteq> Panic"
    by (rule configure_no_panic)
  then obtain r where r: "configureDNSForPod_store fst sample_engine h1 (sample_pod_in ''default'') c = Ret r"
    by (cases "configureDNSForPod_store fst sample_engine h1 (sample_pod_in ''default'') c") auto
  obtain pod h2 e where r2: "r = (pod, h2, e)" by (cases r)
  have "c \<in> set (classes_at h1 q)" using c by simp
  from webhook_leaves_cache_unchanged [OF sample_contract sample_heap_good sample_reach(2) d [unfolded b] q
      this r [unfolded r2]]
  show ?thesis using d [unfolded b] r [unfolded r2] by blast
qed

end
