(* ===== verification/Pod_Webhook_Serving.thy ===== *)
theory Pod_Webhook_Serving
  imports Pod_Webhook_Store
begin

text \<open>
  The pod webhook serving one request after the other on one heap: the decoded pod and the
  listed classes are objects on the heap, the cached classes stay on it between the requests, and
  \<open>configureDNSForPod\<close> writes through pointers. What the handler relies on is the locale
  \<open>webhook_environment\<close>; inside it every response is shown to be the value model's.
\<close>

section \<open>The handler on the heap\<close>

fun select_struct :: "('m, 'k, 'l) heap \<Rightarrow> 'r pod_struct \<Rightarrow> 'm class_struct list \<Rightarrow> 'm class_struct option" where
  "select_struct h pod [] = None"
| "select_struct h pod (item # items) =
     (if slices_Contains (elems (strings_val h (ss_DisabledNamespaces (os_Spec item)))) (ps_Namespace pod)
      then select_struct h pod items
      else if \<not> slices_Contains (elems (strings_val h (ss_AllowedDNSPolicies (os_Spec item)))) (ps_DNSPolicy pod)
      then select_struct h pod items
      else if length (elems (strings_val h (ss_AllowedNamespaces (os_Spec item)))) = 0 \<or>
              slices_Contains (elems (strings_val h (ss_AllowedNamespaces (os_Spec item)))) (ps_Namespace pod)
      then Some item
      else select_struct h pod items)"

text \<open>
  The handler once the class is chosen. A panic is raised before anything is written.
\<close>

definition apply_store ::
  "'r PodMutator \<Rightarrow> ('m \<Rightarrow> string \<times> string \<times> int \<times> string) \<Rightarrow> ('m, 'k, 'l) heap \<Rightarrow> Request \<Rightarrow> 'r pod_struct \<Rightarrow>
   'm class_struct \<Rightarrow> Response outcome \<times> ('m, 'k, 'l) heap" where
  "apply_store p meta h req pod dnsclass =
     (let name = fst (meta (os_ObjectMeta dnsclass))
      in if ts_State (os_Status dnsclass) \<noteq> StateReady
         then (Ret (Allowed (name @ '' '' @ ErrNotAvailableDNSClass)), h)
         else
           (case configureDNSForPod_store (fst \<circ> meta) (text_template p) h pod dnsclass of
              Panic \<Rightarrow> (Panic, h)
            | Ret (pod, h, Some e) \<Rightarrow> (Ret (Allowed (name @ '' '' @ ErrDNSConfig)), h)
            | Ret (pod, h, None) \<Rightarrow>
                (case json_Marshal p (pod_val h pod) of
                   None \<Rightarrow> (Ret (Allowed ErrMarshal), h)
                 | Some marshaledPod \<Rightarrow>
                     (Ret (PatchResponseFromRaw (Object_Raw req) marshaledPod), h))))"

text \<open>One request. \<open>failed\<close> is the error of \<open>List\<close> for this request, if it fails.\<close>

definition Handle_store ::
  "'r PodMutator \<Rightarrow> (Request \<Rightarrow> ('m, 'k, 'l) heap \<Rightarrow> ('r pod_struct \<times> ('m, 'k, 'l) heap) option) \<Rightarrow>
   (('m, 'k, 'l) heap \<Rightarrow> 'm class_struct list \<times> ('m, 'k, 'l) heap) \<Rightarrow> ('m \<Rightarrow> string \<times> string \<times> int \<times> string) \<Rightarrow>
   ('m, 'k, 'l) heap \<Rightarrow> Request \<times> string option \<Rightarrow> Response outcome \<times> ('m, 'k, 'l) heap" where
  "Handle_store p decode list_classes meta h r =
     (case r of (req, failed) \<Rightarrow>
       (case decode req h of
          None \<Rightarrow> (Ret (Allowed ErrPodDecode), h)
        | Some (pod, h) \<Rightarrow>
            (case failed of
               Some err \<Rightarrow> (Ret (Allowed err), h)
             | None \<Rightarrow>
                 (let (classes, h) = list_classes h
                  in case select_struct h pod classes of
                       None \<Rightarrow> (Ret (Allowed ErrNoDNSClass), h)
                     | Some dnsclass \<Rightarrow> apply_store p meta h req pod dnsclass))))"

text \<open>Any number of requests, on the heap the requests before them left.\<close>

fun serve where
  "serve p decode list_classes meta h [] = ([], h)"
| "serve p decode list_classes meta h (r # rs) =
     (let (response, h) = Handle_store p decode list_classes meta h r;
          (responses, h) = serve p decode list_classes meta h rs
      in (response # responses, h))"

section \<open>What the handler relies on\<close>

definition class_cells :: "('m, 'k, 'l) heap \<Rightarrow> 'm class_struct \<Rightarrow> addr set" where
  "class_cells h c = spec_reach h (os_Spec c) \<union> status_reach h (os_Status c)"

text \<open>The cached classes are on the heap.\<close>

definition cached ::
  "(('m, 'k, 'l) heap \<Rightarrow> 'm \<Rightarrow> addr set) \<Rightarrow> 'm class_struct list \<Rightarrow> ('m, 'k, 'l) heap \<Rightarrow> bool" where
  "cached mr items h \<longleftrightarrow> good h \<and> (\<forall>c \<in> set items. class_reach mr h c \<subseteq> dom (cells h) \<and> class_typed h c)"

text \<open>
  The decoder builds the pod from new cells; listing answers copies of the cached classes, with
  equal values, whose \<open>DNSConfig\<close> is not one of the cells that were there.
\<close>

locale webhook_environment =
  fixes p :: "'r PodMutator"
    and decode :: "Request \<Rightarrow> ('m, 'k, 'l) heap \<Rightarrow> ('r pod_struct \<times> ('m, 'k, 'l) heap) option"
    and list_classes :: "('m, 'k, 'l) heap \<Rightarrow> 'm class_struct list \<times> ('m, 'k, 'l) heap"
    and meta :: "'m \<Rightarrow> string \<times> string \<times> int \<times> string"
    and mv :: "('m, 'k, 'l) heap \<Rightarrow> 'm \<Rightarrow> 'v" and mr :: "('m, 'k, 'l) heap \<Rightarrow> 'm \<Rightarrow> addr set"
    and items :: "'m class_struct list"
  assumes meta_object: "object mv mr"
    and decode_value: "good h \<Longrightarrow>
      (case decode req h of
         None \<Rightarrow> Decode p req = None
       | Some (pod, h') \<Rightarrow> extends h h' \<and> Decode p req = Some (pod_val h' pod) \<and>
           config_ptr_reach h' (ps_DNSConfig pod) \<subseteq> dom (cells h'))"
    and list_copies: "cached mr items h \<Longrightarrow> list_classes h = (cs, h') \<Longrightarrow>
      extends h h' \<and> map (class_object_val meta h') cs = map (class_object_val meta h) items \<and>
      (\<forall>c \<in> set cs. class_typed h' c \<and> class_cells h' c \<subseteq> dom (cells h') - dom (cells h))"

text \<open>The mutator of the value model: its client lists the values of the cached classes.\<close>

definition value_mutator ::
  "'r PodMutator \<Rightarrow> ('m \<Rightarrow> string \<times> string \<times> int \<times> string) \<Rightarrow> 'm class_struct list \<Rightarrow> ('m, 'k, 'l) heap \<Rightarrow>
   string option \<Rightarrow> 'r PodMutator" where
  "value_mutator p meta items h failed =
     p\<lparr>List_classes := (case failed of Some err \<Rightarrow> Inl err | None \<Rightarrow> Inr (map (class_object_val meta h) items))\<rparr>"

lemma class_object_val_local:
  assumes "agree_on (class_cells h c) h h'"
  shows "class_object_val meta h' c = class_object_val meta h c" "class_cells h' c = class_cells h c"
proof -
  have a: "agree_on (spec_reach h (os_Spec c)) h h'" "agree_on (status_reach h (os_Status c)) h h'"
    using assms by (simp_all add: class_cells_def)
  show "class_object_val meta h' c = class_object_val meta h c" "class_cells h' c = class_cells h c"
    using spec.val_local [OF a(1)] spec.reach_local [OF a(1)] status.val_local [OF a(2)] status.reach_local [OF a(2)]
    by (simp_all add: class_object_val_def class_cells_def)
qed

lemma extends_cell: "extends h h' \<Longrightarrow> cells h q = Some z \<Longrightarrow> cells h' q = Some z"
  by (metis domI extends_def map_le_def)

lemma strings_typed_extends: "extends h h' \<Longrightarrow> strings_typed h a \<Longrightarrow> strings_typed h' a"
  by (auto simp: strings_typed_def split: option.splits dest: extends_cell)

lemma options_typed_extends: "extends h h' \<Longrightarrow> options_typed h a \<Longrightarrow> options_typed h' a"
  by (auto simp: options_typed_def split: option.splits dest: extends_cell)

lemma class_typed_extends: "extends h h' \<Longrightarrow> class_typed h c \<Longrightarrow> class_typed h' c"
  by (auto simp: class_typed_def config_typed_def fields_typed_def split: option.splits
      dest: extends_cell intro: strings_typed_extends options_typed_extends)

lemma cached_extends:
  assumes "object mv mr" and "cached mr items h" and "extends h h'"
  shows "cached mr items h'" "map (class_object_val meta h') items = map (class_object_val meta h) items"
proof -
  note kept = object.kept [OF class_object [OF assms(1)] assms(3)]
  have "class_cells h c \<subseteq> class_reach mr h c" for c by (auto simp: class_cells_def class_reach_def)
  then have "class_object_val meta h' c = class_object_val meta h c" if "c \<in> set items" for c
    using class_object_val_local(1) [OF extends_agree [OF assms(3)]] assms(2) that
    unfolding cached_def by (metis subset_trans)
  then show "map (class_object_val meta h') items = map (class_object_val meta h) items" by simp
  show "cached mr items h'"
    using assms(2) kept(3) class_typed_extends [OF assms(3)] extends_good [OF assms(3)]
    by (simp add: cached_def)
qed

lemma select_struct_value:
  "select_DNSClass (pod_val h pod) (map (class_object_val meta h) cs) =
     (case select_struct h pod cs of
        None \<Rightarrow> (empty_DNSClass, Some ErrNoDNSClass) | Some c \<Rightarrow> (class_object_val meta h c, None))"
  by (induction cs) (simp_all add: class_object_val_def spec_val_def pod_val_def)

lemma select_struct_mem: "select_struct h pod cs = Some c \<Longrightarrow> c \<in> set cs"
  by (induction cs) (auto split: if_splits)

text \<open>What \<open>configureDNSForPod\<close> leaves of the heap when the class's configuration is new.\<close>

lemma configure_extends:
  assumes "extends h h1" and "configureDNSForPod_store name render h1 pod c = Ret (pod', h2, e)"
    and "class_typed h1 c" and "class_cells h1 c \<inter> dom (cells h) = {}"
  shows "extends h h2"
proof -
  have p: "q \<in> dom (cells h1) \<and> q \<notin> dom (cells h)" if "ss_DNSConfig (os_Spec c) = Some q" for q
    using assms(3,4) that
    by (auto simp: class_typed_def config_typed_def class_cells_def spec_reach_def ptr_reach_def)
  have "good h2"
    using assms(2) extends_good [OF assms(1)] p
    by (auto simp: configureDNSForPod_store_def apply_config_def Let_def alloc_def store_def good_def
        split: if_splits option.splits sum.splits)
  moreover have "cells h2 q = cells h q" if "q \<in> dom (cells h)" for q
    using configure_frame [OF extends_good [OF assms(1)] assms(2), of q] p that extends_dom [OF assms(1)]
      extends_agree [OF assms(1), of "{q}"] by (auto simp: agree_on_def)
  ultimately show ?thesis by (auto simp: extends_def map_le_def)
qed

context webhook_environment
begin

text \<open>The response for a chosen class is that of the value model, and older cells stay as they were.\<close>

lemma apply_store_value:
  assumes e: "extends h h2" and t: "class_typed h2 c" and new: "class_cells h2 c \<inter> dom (cells h) = {}"
    and pr: "config_ptr_reach h2 (ps_DNSConfig pod) \<subseteq> dom (cells h2)"
  shows "fst (apply_store p meta h2 req pod c) =
      (if State (dc_Status (class_object_val meta h2 c)) \<noteq> StateReady
       then Ret (Allowed (dc_Name (class_object_val meta h2 c) @ '' '' @ ErrNotAvailableDNSClass))
       else obind (configureDNSForPod (text_template p) (pod_val h2 pod) (class_object_val meta h2 c))
         (respond p req (class_object_val meta h2 c))) \<and>
    extends h (snd (apply_store p meta h2 req pod c))"
proof -
  have st: "State (dc_Status (class_object_val meta h2 c)) = ts_State (os_Status c)"
    "dc_Name (class_object_val meta h2 c) = fst (meta (os_ObjectMeta c))"
    by (simp_all add: class_object_val_def status_val_def)
  note ref = configureDNSForPod_store_value [OF extends_good [OF e] t pr,
      where meta = meta and render = "text_template p", symmetric]
  note ext = configure_extends [OF e _ t new]
  show ?thesis
  proof (cases "configureDNSForPod_store (fst \<circ> meta) (text_template p) h2 pod c")
    case Panic
    then show ?thesis using e ref st by (simp add: apply_store_def Let_def)
  next
    case (Ret r)
    obtain pod3 h3 err where "r = (pod3, h3, err)" by (cases r)
    then show ?thesis
      using Ret e ref st ext
      by (cases err) (auto simp: apply_store_def outcome_val_def respond_def Let_def split: option.splits)
  qed
qed

lemma getDNSClass_value:
  assumes "map (class_object_val meta h2) cs = map (class_object_val meta h) items"
  shows "getDNSClass (value_mutator p meta items h None) (pod_val h2 pod) =
    (case select_struct h2 pod cs of
       None \<Rightarrow> (empty_DNSClass, Some ErrNoDNSClass) | Some c \<Rightarrow> (class_object_val meta h2 c, None))"
  using select_struct_value [of h2 pod meta cs]
  by (simp add: getDNSClass_def value_mutator_def assms [symmetric])

lemma respond_value: "respond (value_mutator p meta items h f) req dc = respond p req dc"
  by (simp add: fun_eq_iff respond_def value_mutator_def split: option.split)

text \<open>One request: the response of the value model, and a heap that only grew.\<close>

lemma Handle_store_value:
  assumes "cached mr items h"
  shows "fst (Handle_store p decode list_classes meta h (req, failed)) =
      Handle (value_mutator p meta items h failed) req \<and>
    extends h (snd (Handle_store p decode list_classes meta h (req, failed)))"
proof -
  let ?v = "value_mutator p meta items h failed"
  have g: "good h" using assms by (simp add: cached_def)
  have v: "Decode (value_mutator p meta items h f) = Decode p"
    "json_Marshal (value_mutator p meta items h f) = json_Marshal p"
    "text_template (value_mutator p meta items h f) = text_template p"
    "List_classes (value_mutator p meta items h f) =
      (case f of Some err \<Rightarrow> Inl err | None \<Rightarrow> Inr (map (class_object_val meta h) items))" for f
    by (simp_all add: value_mutator_def)
  show ?thesis
  proof (cases "decode req h")
    case None
    then show ?thesis
      using decode_value [OF g, of req] v extends_refl [OF g] by (simp add: Handle_store_def Handle_def)
  next
    case (Some d)
    obtain pod h1 where d: "decode req h = Some (pod, h1)" using Some by (cases d) auto
    have e1: "extends h h1" and dv: "Decode p req = Some (pod_val h1 pod)"
      and pr: "config_ptr_reach h1 (ps_DNSConfig pod) \<subseteq> dom (cells h1)"
      using decode_value [OF g, of req] d by auto
    show ?thesis
    proof (cases failed)
      case (Some err)
      then show ?thesis
        using d dv v e1 by (simp add: Handle_store_def Handle_def getDNSClass_def)
    next
      case None
      obtain cs h2 where l: "list_classes h1 = (cs, h2)" by fastforce
      note c1 = cached_extends [OF meta_object assms e1]
      note lc = list_copies [OF c1(1) l]
      then have e2: "extends h1 h2" and typed: "\<And>c. c \<in> set cs \<Longrightarrow> class_typed h2 c"
        and new: "\<And>c. c \<in> set cs \<Longrightarrow> class_cells h2 c \<inter> dom (cells h1) = {}"
        and vals: "map (class_object_val meta h2) cs = map (class_object_val meta h) items"
        unfolding c1(2) [symmetric] by blast+
      have e: "extends h h2" using e1 e2 by (rule extends_trans)
      have pv: "pod_val h2 pod = pod_val h1 pod" and pr2: "config_ptr_reach h2 (ps_DNSConfig pod) \<subseteq> dom (cells h2)"
        using config_pointer.ptr.kept [OF e2 pr] by (simp_all add: pod_val_def)
      have sel: "getDNSClass ?v (pod_val h1 pod) =
          (case select_struct h2 pod cs of
             None \<Rightarrow> (empty_DNSClass, Some ErrNoDNSClass) | Some c \<Rightarrow> (class_object_val meta h2 c, None))"
        using getDNSClass_value [OF vals, of pod] None by (simp add: pv)
      show ?thesis
      proof (cases "select_struct h2 pod cs")
        case no: None
        then show ?thesis
          using d dv v l None sel e by (simp add: Handle_store_def Handle_def)
      next
        case (Some c)
        have mem: "c \<in> set cs" using Some by (rule select_struct_mem)
        have new': "class_cells h2 c \<inter> dom (cells h) = {}" using new [OF mem] extends_dom [OF e1] by blast
        note ap = apply_store_value [OF e typed [OF mem] new' pr2, where req = req]
        show ?thesis using ap d dv v l None sel Some by (simp add: Handle_store_def Handle_def pv respond_value)
      qed
    qed
  qed
qed

lemma serve_value:
  assumes "cached mr items h"
  shows "fst (serve p decode list_classes meta h rs) =
      map (\<lambda>(req, failed). Handle (value_mutator p meta items h failed) req) rs \<and>
    extends h (snd (serve p decode list_classes meta h rs))"
  using assms
proof (induction rs arbitrary: h)
  case Nil
  then show ?case by (simp add: cached_def extends_refl)
next
  case (Cons r rs)
  obtain req failed where r: "r = (req, failed)" by (cases r)
  obtain response h1 where one: "Handle_store p decode list_classes meta h r = (response, h1)" by fastforce
  note first = Handle_store_value [OF Cons.prems, of req failed, folded r, unfolded one, simplified]
  note c = cached_extends [OF meta_object Cons.prems first [THEN conjunct2]]
  have "value_mutator p meta items h1 f = value_mutator p meta items h f" for f
    unfolding value_mutator_def c(2) [where meta = meta] ..
  then show ?case
    using Cons.IH [OF c(1)] first one r extends_trans [of h h1]
    by (simp add: split_beta)
qed

end

section \<open>A client that hands out deep copies\<close>

text \<open>A client that copies each cached class by the generated code.\<close>

primrec copy_each ::
  "('m, 'k, 'l) library \<Rightarrow> 'm class_struct list \<Rightarrow> ('m, 'k, 'l) heap \<Rightarrow> 'm class_struct list \<times> ('m, 'k, 'l) heap" where
  "copy_each L [] h = ([], h)"
| "copy_each L (c # cs) h =
     (let (x, h) = DNSClass_DeepCopyInto L h c; (xs, h) = copy_each L cs h in (x # xs, h))"

text \<open>The library's copies keep the types of the cells, and the plain fields of the metadata.\<close>

definition config_struct_typed :: "('m, 'k, 'l) heap \<Rightarrow> config_struct \<Rightarrow> bool" where
  "config_struct_typed h c \<longleftrightarrow> strings_typed h (gs_Nameservers c) \<and> strings_typed h (gs_Searches c) \<and>
     options_typed h (gs_Options c)"

definition typed_library :: "('m \<Rightarrow> string \<times> string \<times> int \<times> string) \<Rightarrow> ('m, 'k, 'l) library \<Rightarrow> bool" where
  "typed_library meta L \<longleftrightarrow>
     (\<forall>h c y h'. good h \<longrightarrow> config_reach h c \<subseteq> dom (cells h) \<longrightarrow> config_struct_typed h c \<longrightarrow>
        PodDNSConfig_DeepCopyInto L h c = (y, h') \<longrightarrow> config_struct_typed h' y) \<and>
     (\<forall>h m y h'. ObjectMeta_DeepCopyInto L h m = (y, h') \<longrightarrow> meta y = meta m)"

lemma copy_strings_typed:
  "copy_slice StringsCell strings_at zero h a = (b, h') \<Longrightarrow> strings_typed h' b"
  by (auto simp: copy_slice_def strings_typed_def split: option.splits prod.splits)

lemma copy_options_typed:
  "copy_slice OptionsCell options_at zero h a = (b, h') \<Longrightarrow> options_typed h' b"
  by (auto simp: copy_slice_def options_typed_def split: option.splits prod.splits)

lemma strings_typed_store:
  "strings_typed h a \<Longrightarrow> \<forall>xs. cells h q \<noteq> Some (StringsCell xs) \<Longrightarrow> strings_typed (store q z h) a"
  by (auto simp: strings_typed_def split: option.splits)

lemma options_typed_store:
  "options_typed h a \<Longrightarrow> \<forall>xs. cells h q \<noteq> Some (OptionsCell xs) \<Longrightarrow> options_typed (store q z h) a"
  by (auto simp: options_typed_def split: option.splits)

lemma new_config_typed:
  assumes L: "deepcopy config_val config_reach (PodDNSConfig_DeepCopyInto L)" and T: "typed_library meta L"
    and h: "good h" "config_ptr_reach h a \<subseteq> dom (cells h)" "config_typed h a"
    and c: "new_copy ConfigCell config_at zero_config (PodDNSConfig_DeepCopyInto L) h a = (b, h')"
  shows "config_typed h' b"
proof (cases a)
  case None
  then show ?thesis using c by (simp add: new_copy_def config_typed_def)
next
  case (Some p)
  obtain g where g: "cells h p = Some (ConfigCell g)" "config_struct_typed h g"
    using h(3) Some by (auto simp: config_typed_def config_struct_typed_def)
  obtain q h1 where al: "alloc (ConfigCell zero_config) h = (q, h1)" by fastforce
  note e = extends_alloc [OF h(1) al]
  have at: "config_at h1 p = g" using extends_cell [OF e(1) g(1)] by simp
  have r: "config_reach h g \<subseteq> dom (cells h)" using h(2) Some g(1) by (simp add: ptr_reach_def)
  obtain x h2 where cp: "PodDNSConfig_DeepCopyInto L h1 g = (x, h2)" by fastforce
  have "config_struct_typed h1 g"
    using g(2) strings_typed_extends [OF e(1)] options_typed_extends [OF e(1)] by (simp add: config_struct_typed_def)
  then have x: "config_struct_typed h2 x"
    using T extends_good [OF e(1)] config.kept(3) [OF e(1) r] cp unfolding typed_library_def by blast
  have "cells h2 q = Some (ConfigCell zero_config)"
    using extends_cell [OF deepcopy.copy_step(1) [OF L e(1) r cp] e(3)] .
  then have "config_struct_typed (store q (ConfigCell x) h2) x"
    using x by (simp add: config_struct_typed_def strings_typed_store options_typed_store)
  moreover have "b = Some q" "h' = store q (ConfigCell x) h2"
    using c Some al at cp by (simp_all add: new_copy_def)
  ultimately show ?thesis by (simp add: config_typed_def config_struct_typed_def)
qed

lemma new_fields_typed:
  assumes "new_copy FieldsCell fields_at zero_fields DiscoveredFields_DeepCopyInto h a = (b, h')" and "good h"
    and "fields_ptr_reach h a \<subseteq> dom (cells h)"
  shows "fields_typed h' b"
proof (cases a)
  case None
  then show ?thesis using assms(1) by (simp add: new_copy_def fields_typed_def)
next
  case (Some p)
  obtain q h1 where al: "alloc (FieldsCell zero_fields) h = (q, h1)" by fastforce
  note e = extends_alloc [OF assms(2) al]
  obtain x h2 where cp: "DiscoveredFields_DeepCopyInto h1 (fields_at h1 p) = (x, h2)" by fastforce
  have d: "p \<in> dom (cells h)" and r: "fields_reach h (fields_at h p) \<subseteq> dom (cells h)"
    using assms(3) Some by (simp_all add: ptr_reach_def)
  have "cells h1 p = cells h p"
    using d extends_agree [OF e(1), of "{p}"] by (simp add: agree_on_def)
  then have "fields_at h1 p = fields_at h p" by (rule fields_cell.rd_local)
  note step = fields.copy_step [OF e(1) r cp [unfolded this]]
  have q: "cells h2 q = Some (FieldsCell zero_fields)" using extends_cell [OF step(1) e(3)] .
  obtain s where s: "copy_slice StringsCell strings_at [] h1 (fs_Nameservers (fields_at h1 p)) = (s, h2)" "x = (fields_at h1 p)\<lparr>fs_Nameservers := s\<rparr>"
    using cp by (auto simp: DiscoveredFields_DeepCopyInto_def split: prod.splits)
  have "strings_typed h2 (fs_Nameservers x)" using copy_strings_typed [OF s(1)] s(2) by simp
  then have "strings_typed (store q (FieldsCell x) h2) (fs_Nameservers x)"
    by (rule strings_typed_store) (simp add: q)
  moreover have "b = Some q" "h' = store q (FieldsCell x) h2"
    using assms(1) Some al cp by (simp_all add: new_copy_def)
  ultimately show ?thesis by (simp add: fields_typed_def)
qed

lemma spec_config_typed:
  assumes L: "deepcopy config_val config_reach (PodDNSConfig_DeepCopyInto L)" and T: "typed_library meta L"
    and e: "extends h0 h" and r: "spec_reach h0 i \<subseteq> dom (cells h0)" and t: "config_typed h0 (ss_DNSConfig i)"
    and c: "DNSClassSpec_DeepCopyInto L h i = (out, h')"
  shows "config_typed h' (ss_DNSConfig out)"
proof -
  obtain a h1 b h2 c h3 d where
    c1: "copy_slice StringsCell strings_at [] h (ss_AllowedNamespaces i) = (a, h1)" and
    c2: "copy_slice StringsCell strings_at [] h1 (ss_DisabledNamespaces i) = (b, h2)" and
    c3: "copy_slice StringsCell strings_at [] h2 (ss_AllowedDNSPolicies i) = (c, h3)" and
    c4: "new_copy ConfigCell config_at zero_config (PodDNSConfig_DeepCopyInto L) h3 (ss_DNSConfig i) = (d, h')" and
    out: "ss_DNSConfig out = d"
    using c by (auto simp: DNSClassSpec_DeepCopyInto_def Let_def split: prod.splits)
  have r: "strings_reach h0 (ss_AllowedNamespaces i) \<subseteq> dom (cells h0)"
    "strings_reach h0 (ss_DisabledNamespaces i) \<subseteq> dom (cells h0)"
    "strings_reach h0 (ss_AllowedDNSPolicies i) \<subseteq> dom (cells h0)"
    "config_ptr_reach h0 (ss_DNSConfig i) \<subseteq> dom (cells h0)"
    using r by (simp_all add: spec_reach_def)
  note s1 = strings_slice.slice.copy_step [OF e r(1) c1]
  note s2 = strings_slice.slice.copy_step [OF s1(2) r(2) c2]
  note s3 = strings_slice.slice.copy_step [OF s2(2) r(3) c3]
  have "config_typed h3 (ss_DNSConfig i)"
    using t s3(2) by (auto simp: config_typed_def split: option.splits
        dest: extends_cell intro: strings_typed_extends options_typed_extends)
  from new_config_typed [OF L T extends_good [OF s3(2)] config_pointer.ptr.kept(3) [OF s3(2) r(4)] this c4]
  show ?thesis using out by simp
qed

lemma status_fields_typed:
  assumes L: "deepcopy plain_val plain_reach (Condition_DeepCopyInto L)"
    and e: "extends h0 h" and r: "status_reach h0 i \<subseteq> dom (cells h0)"
    and c: "DNSClassStatus_DeepCopyInto L h i = (out, h')"
  shows "fields_typed h' (ts_DiscoveredFields out)"
proof -
  have sc: "slice_copy ConditionsCell conditions_at plain_val plain_reach (Condition_DeepCopyInto L)"
    by (intro slice_copy.intro L conditions_cell.cell_type_axioms)
  obtain a h1 d where
    c1: "copy_items ConditionsCell conditions_at zero_Condition (Condition_DeepCopyInto L) h (ts_Conditions i) = (a, h1)" and
    c2: "new_copy FieldsCell fields_at zero_fields DiscoveredFields_DeepCopyInto h1 (ts_DiscoveredFields i) = (d, h')" and
    out: "ts_DiscoveredFields out = d"
    using c by (auto simp: DNSClassStatus_DeepCopyInto_def Let_def split: prod.splits)
  have r: "conditions_reach h0 (ts_Conditions i) \<subseteq> dom (cells h0)"
    "fields_ptr_reach h0 (ts_DiscoveredFields i) \<subseteq> dom (cells h0)"
    using r by (simp_all add: status_reach_def)
  note s1 = deepcopy.copy_step [OF slice_copy.slice_deepcopy [OF sc] e r(1) c1]
  from new_fields_typed [OF c2 extends_good [OF s1(2)] fields_pointer.po.ptr.kept(3) [OF s1(2) r(2)]]
  show ?thesis using out by simp
qed

lemma class_copy_typed:
  assumes L: "library_contract mv mr kv kr L" and T: "typed_library meta L"
    and h: "good h" "class_reach mr h i \<subseteq> dom (cells h)" "class_typed h i" "DNSClass_DeepCopyInto L h i = (out, h')"
  shows "class_typed h' out \<and> meta (os_ObjectMeta out) = meta (os_ObjectMeta i)"
proof -
  have d: "deepcopy mv mr (ObjectMeta_DeepCopyInto L)"
    "deepcopy spec_val spec_reach (DNSClassSpec_DeepCopyInto L)"
    "deepcopy config_val config_reach (PodDNSConfig_DeepCopyInto L)"
    "deepcopy plain_val plain_reach (Condition_DeepCopyInto L)"
    "deepcopy status_val status_reach (DNSClassStatus_DeepCopyInto L)"
    using L by (simp_all add: library_contract_def spec_deepcopy status_deepcopy)
  obtain m h1 s h2 t where
    c1: "ObjectMeta_DeepCopyInto L h (os_ObjectMeta i) = (m, h1)" and
    c2: "DNSClassSpec_DeepCopyInto L h1 (os_Spec i) = (s, h2)" and
    c3: "DNSClassStatus_DeepCopyInto L h2 (os_Status i) = (t, h')" and
    out: "out = i\<lparr>os_ObjectMeta := m, os_Spec := s, os_Status := t\<rparr>"
    using h(4) by (auto simp: DNSClass_DeepCopyInto_def Let_def split: prod.splits)
  have r: "mr h (os_ObjectMeta i) \<subseteq> dom (cells h)" "spec_reach h (os_Spec i) \<subseteq> dom (cells h)"
    "status_reach h (os_Status i) \<subseteq> dom (cells h)"
    using h(2) by (simp_all add: class_reach_def)
  note s1 = deepcopy.copy_step [OF d(1) extends_refl [OF h(1)] r(1) c1]
  note s2 = deepcopy.copy_step [OF d(2) s1(2) r(2) c2]
  note s3 = deepcopy.copy_step [OF d(5) s2(2) r(3) c3]
  have "config_typed h2 (ss_DNSConfig s)"
    by (rule spec_config_typed [OF d(3) T s1(2) r(2) _ c2]) (use h(3) in \<open>simp add: class_typed_def\<close>)
  then have "config_typed h' (ss_DNSConfig s)"
    using class_typed_extends [OF s3(1), of "i\<lparr>os_Spec := s, os_Status := zero_status\<rparr>"]
    by (simp add: class_typed_def zero_status_def fields_typed_def)
  moreover have "fields_typed h' (ts_DiscoveredFields t)"
    by (rule status_fields_typed [OF d(4) s2(2) r(3) c3])
  moreover have "meta m = meta (os_ObjectMeta i)" using T c1 unfolding typed_library_def by blast
  ultimately show ?thesis by (simp add: class_typed_def out)
qed

lemma class_kept:
  assumes "object mv mr" and "extends h h'" and "class_reach mr h c \<subseteq> dom (cells h)"
  shows "class_object_val meta h' c = class_object_val meta h c" "class_reach mr h' c = class_reach mr h c"
proof -
  have "class_cells h c \<subseteq> dom (cells h)" using assms(3) by (auto simp: class_cells_def class_reach_def)
  then show "class_object_val meta h' c = class_object_val meta h c"
    by (rule class_object_val_local(1) [OF extends_agree [OF assms(2)]])
  show "class_reach mr h' c = class_reach mr h c"
    by (rule object.kept(2) [OF class_object [OF assms(1)] assms(2,3)])
qed

lemma copy_each_copies:
  assumes L: "library_contract mv mr kv kr L" and T: "typed_library meta L"
    and "extends h0 h" and "\<forall>c \<in> set items. class_reach mr h0 c \<subseteq> dom (cells h0) \<and> class_typed h0 c"
    and "copy_each L items h = (cs, h')"
  shows "extends h h' \<and> map (class_object_val meta h') cs = map (class_object_val meta h0) items \<and>
    (\<forall>c \<in> set cs. class_typed h' c \<and> class_reach mr h' c \<subseteq> dom (cells h') - dom (cells h0))"
  using assms(3-5)
proof (induction items arbitrary: h cs)
  case Nil
  then show ?case by (simp add: extends_refl [OF extends_good])
next
  case (Cons c items)
  obtain x h1 where cp: "DNSClass_DeepCopyInto L h c = (x, h1)" by fastforce
  obtain xs where rest: "copy_each L items h1 = (xs, h')" and cs: "cs = x # xs"
    using Cons.prems(3) cp by (auto split: prod.splits)
  have o: "object mv mr" using L by (auto simp: library_contract_def dest: deepcopy.axioms)
  have r0: "class_reach mr h0 c \<subseteq> dom (cells h0)" "class_typed h0 c" using Cons.prems(2) by auto
  note s = deepcopy.copy_step [OF class_deepcopy [OF L] Cons.prems(1) r0(1) cp]
  have IH: "extends h1 h' \<and> map (class_object_val meta h') xs = map (class_object_val meta h0) items \<and>
    (\<forall>c \<in> set xs. class_typed h' c \<and> class_reach mr h' c \<subseteq> dom (cells h') - dom (cells h0))"
    using Cons.IH [OF s(2) _ rest] Cons.prems(2) by simp
  then have e: "extends h1 h'" by blast
  have rh: "class_reach mr h c \<subseteq> dom (cells h)"
    using object.kept(3) [OF class_object [OF o] Cons.prems(1) r0(1)] .
  have t: "class_typed h1 x" "meta (os_ObjectMeta x) = meta (os_ObjectMeta c)"
    using class_copy_typed [OF L T extends_good [OF Cons.prems(1)] rh class_typed_extends [OF Cons.prems(1) r0(2)] cp]
    by simp_all
  have v: "class_object_val meta h1 x = class_object_val meta h0 c"
    using s(3) t(2) by (simp add: copied_def class_val_def class_object_val_def)
  have f: "class_reach mr h1 x \<subseteq> dom (cells h1) - dom (cells h0)" using s(3) by (simp add: copied_def)
  then have "class_reach mr h1 x \<subseteq> dom (cells h1)" by blast
  note k = class_kept [OF o e this]
  have "class_reach mr h' x \<subseteq> dom (cells h') - dom (cells h0)"
    unfolding k(2) using f extends_dom [OF e] by blast
  then show ?case
    using IH cs v k(1) class_typed_extends [OF e t(1)] extends_trans [OF s(1) e] by simp
qed

text \<open>Such a client, with any decoder that builds its pods anew, is what the handler relies on.\<close>

lemma copies_environment:
  assumes L: "library_contract mv mr kv kr L" and T: "typed_library meta L"
    and D: "\<And>req h. good h \<Longrightarrow>
      (case decode req h of
         None \<Rightarrow> Decode p req = None
       | Some (pod, h') \<Rightarrow> extends h h' \<and> Decode p req = Some (pod_val h' pod) \<and>
           config_ptr_reach h' (ps_DNSConfig pod) \<subseteq> dom (cells h'))"
  shows "webhook_environment p decode (copy_each L items) meta mv mr items"
proof (rule webhook_environment.intro [OF _ D])
  show "object mv mr" using L by (auto simp: library_contract_def dest: deepcopy.axioms)
  fix h h' cs
  assume c: "cached mr items h" "copy_each L items h = (cs, h')"
  have "class_cells h' x \<subseteq> class_reach mr h' x" for x by (auto simp: class_cells_def class_reach_def)
  then show "extends h h' \<and> map (class_object_val meta h') cs = map (class_object_val meta h) items \<and>
      (\<forall>c \<in> set cs. class_typed h' c \<and> class_cells h' c \<subseteq> dom (cells h') - dom (cells h))"
    using copy_each_copies [OF L T extends_refl _ c(2)] c(1) unfolding cached_def by (metis (no_types, lifting) subset_trans)
qed

section \<open>An instance\<close>

lemma sample_typed_library: "typed_library sample_meta_of sample_library"
proof -
  have "config_struct_typed h' y"
    if asm: "good h" "config_reach h c \<subseteq> dom (cells h)" "sample_config_copy h c = (y, h')" for h c y h'
  proof -
    obtain a h1 b h2 d where
      c1: "copy_slice StringsCell strings_at [] h (gs_Nameservers c) = (a, h1)" and
      c2: "copy_slice StringsCell strings_at [] h1 (gs_Searches c) = (b, h2)" and
      c3: "copy_slice OptionsCell options_at \<lparr>opt_Name = [], opt_Value = None\<rparr> h2 (gs_Options c) = (d, h')" and
      y: "y = \<lparr>gs_Nameservers = a, gs_Searches = b, gs_Options = d\<rparr>"
      using asm(3) by (auto simp: sample_config_copy_def Let_def split: prod.splits)
    have r: "strings_reach h (gs_Nameservers c) \<subseteq> dom (cells h)"
      "strings_reach h (gs_Searches c) \<subseteq> dom (cells h)"
      "ptr_reach options_at plain_reach h (gs_Options c) \<subseteq> dom (cells h)"
      using asm(2) by (simp_all add: config_reach_def)
    note s1 = strings_slice.slice.copy_step [OF extends_refl [OF asm(1)] r(1) c1]
    note s2 = strings_slice.slice.copy_step [OF s1(2) r(2) c2]
    note s3 = options_slice.slice.copy_step [OF s2(2) r(3) c3]
    show ?thesis
      using copy_strings_typed [OF c1] copy_strings_typed [OF c2] copy_options_typed [OF c3]
        strings_typed_extends [OF s2(1)] strings_typed_extends [OF s3(1)]
      by (simp add: config_struct_typed_def y)
  qed
  moreover have "sample_meta_of y = sample_meta_of m" if "sample_meta_copy h m = (y, h')" for h m y h'
    using that by (auto simp: sample_meta_copy_def sample_meta_of_def split: prod.splits)
  moreover have "PodDNSConfig_DeepCopyInto sample_library = sample_config_copy"
    "ObjectMeta_DeepCopyInto sample_library = sample_meta_copy"
    by (simp_all add: sample_library_def)
  ultimately show ?thesis unfolding typed_library_def by (simp only:) blast
qed

text \<open>The raw request is the name of the pod's namespace.\<close>

definition sample_decode :: "Request \<Rightarrow> ('m, 'k, 'l) heap \<Rightarrow> (unit pod_struct \<times> ('m, 'k, 'l) heap) option" where
  "sample_decode req h = Some (sample_pod_in (Object_Raw req), h)"

definition sample_p :: "unit PodMutator" where
  "sample_p =
     \<lparr>Decode = (\<lambda>req. Some \<lparr>pod_Namespace = Object_Raw req, pod_Annotations = None,
        pod_DNSPolicy = DNSClusterFirst, pod_DNSConfig = None, pod_Rest = ()\<rparr>),
      List_classes = Inr [], json_Marshal = (\<lambda>pod. Some (strings_Join (case pod_DNSConfig pod of
        None \<Rightarrow> [] | Some c \<Rightarrow> elems (Searches c)) '' '')), text_template = sample_engine\<rparr>"

interpretation sample_webhook: webhook_environment sample_p sample_decode "copy_each sample_library [sample_struct]"
    sample_meta_of sample_meta_val sample_meta_reach "[sample_struct]"
  by (rule copies_environment [OF sample_contract sample_typed_library])
    (simp add: sample_decode_def sample_p_def sample_pod_in_def pod_val_def ptr_val_def ptr_reach_def extends_refl)

lemma sample_cached: "cached sample_meta_reach [sample_struct] sample_heap"
  by (simp add: cached_def sample_heap_good sample_class_typed sample_struct_reach sample_reads)

section \<open>Serving requests\<close>

text \<open>
  C11. The pod webhook serves any number of requests, one after the other on one heap, with exactly
  the responses of the value model on the cached classes, and leaves these as they were: although
  every request writes through pointers of the class it chose, no request influences a later one.
  This rests on the decoder and the client handing out objects of their own.
\<close>

theorem webhook_serves_like_value_model:
  assumes "webhook_environment p decode list_classes meta mv mr items" and "cached mr items h"
  shows "fst (serve p decode list_classes meta h requests) =
      map (\<lambda>(req, failed). Handle (value_mutator p meta items h failed) req) requests \<and>
    map (class_object_val meta (snd (serve p decode list_classes meta h requests))) items =
      map (class_object_val meta h) items"
  using webhook_environment.serve_value [OF assms]
    cached_extends(2) [OF webhook_environment.meta_object [OF assms(1)] assms(2)] by blast

theorem webhook_serves_like_value_model_witness:
  "fst (serve sample_p sample_decode (copy_each sample_library [sample_struct]) sample_meta_of sample_heap
       [(\<lparr>Object_Raw = ''default''\<rparr>, None), (\<lparr>Object_Raw = ''blue''\<rparr>, None)]) =
     [Handle (value_mutator sample_p sample_meta_of [sample_struct] sample_heap None) \<lparr>Object_Raw = ''default''\<rparr>,
      Handle (value_mutator sample_p sample_meta_of [sample_struct] sample_heap None) \<lparr>Object_Raw = ''blue''\<rparr>]"
  using webhook_serves_like_value_model [OF sample_webhook.webhook_environment_axioms sample_cached,
      of "[(\<lparr>Object_Raw = ''default''\<rparr>, None), (\<lparr>Object_Raw = ''blue''\<rparr>, None)]"]
  by simp

end
