(* ===== verification/Process_Startup.thy ===== *)
theory Process_Startup
  imports Controller DNSClass_Webhook
begin

text \<open>
  The start of the manager process, \<open>cmd/main.go\<close>: the flags with their defaults, the TLS options
  of the two servers as Go slices with shared backing arrays, the certificate watchers, and the
  sequence of calls to the library that build and start the manager. The calls are a trace; which
  of them succeed, and how far \<open>append\<close> lets an array grow, is the environment's choice.
  The command line is read in \<open>Command_Line\<close>; logging is left out.
\<close>

section \<open>Flags\<close>

text \<open>Durations are in nanoseconds.\<close>

record leaderElectionConfiguration =
  LeaderElect :: bool
  LeaseDuration :: int
  RenewDeadline :: int
  RetryPeriod :: int
  ResourceLock :: string
  ResourceName :: string
  ResourceNamespace :: string

record flags =
  printVersion :: bool
  metricsAddr :: string
  probeAddr :: string
  secureMetrics :: bool
  webhookCertPath :: string
  webhookCertName :: string
  webhookCertKey :: string
  metricsCertPath :: string
  metricsCertName :: string
  metricsCertKey :: string
  enableHTTP2 :: bool
  maxConcurrentReconciles :: int
  leaderElection :: leaderElectionConfiguration

definition time_Second :: int where
  "time_Second = 1000000000"

text \<open>What the variables hold when no flag is given.\<close>

definition default_flags :: flags where
  "default_flags =
     \<lparr>printVersion = False, metricsAddr = ''0'', probeAddr = '':8081'', secureMetrics = True,
      webhookCertPath = [], webhookCertName = ''tls.crt'', webhookCertKey = ''tls.key'',
      metricsCertPath = [], metricsCertName = ''tls.crt'', metricsCertKey = ''tls.key'',
      enableHTTP2 = False, maxConcurrentReconciles = 2,
      leaderElection =
        \<lparr>LeaderElect = False, LeaseDuration = 15 * time_Second, RenewDeadline = 10 * time_Second,
         RetryPeriod = 2 * time_Second, ResourceLock = ''leases'', ResourceName = ''kubedns-shepherd.io'',
         ResourceNamespace = []\<rparr>\<rparr>"

section \<open>Paths\<close>

text \<open>\<open>filepath.Clean\<close>: the elements between slashes, with \<open>.\<close> dropped and \<open>..\<close> resolved.\<close>

fun split_slash :: "string \<Rightarrow> string \<Rightarrow> string list" where
  "split_slash acc [] = [acc]"
| "split_slash acc (c # cs) = (if c = CHR ''/'' then acc # split_slash [] cs else split_slash (acc @ [c]) cs)"

text \<open>The kept elements, the last one first.\<close>

definition clean_element :: "bool \<Rightarrow> string list \<Rightarrow> string \<Rightarrow> string list" where
  "clean_element rooted stack e =
     (if e = [] \<or> e = ''.'' then stack
      else if e = ''..'' then
        (if stack \<noteq> [] \<and> hd stack \<noteq> ''..'' then tl stack
         else if rooted then stack else e # stack)
      else e # stack)"

definition filepath_Clean :: "string \<Rightarrow> string" where
  "filepath_Clean path =
     (let rooted = (path \<noteq> [] \<and> hd path = CHR ''/'');
          kept = rev (foldl (clean_element rooted) [] (split_slash [] path));
          out = (if rooted then ''/'' else []) @ strings_Join kept ''/''
      in if out = [] then ''.'' else out)"

text \<open>\<open>filepath.Join\<close> of two elements: empty ones are ignored.\<close>

definition filepath_Join :: "string \<Rightarrow> string \<Rightarrow> string" where
  "filepath_Join a b =
     (let es = dropWhile (\<lambda>e. e = []) [a, b]
      in if es = [] then [] else filepath_Clean (strings_Join es ''/''))"

section \<open>Slices with backing arrays\<close>

text \<open>
  A slice is the address of an array, a length and a capacity; appending within the capacity
  writes to the array it shares, and beyond it allocates. \<open>grow old n\<close> is the capacity of the new
  array for \<open>n\<close> elements, which the language only promises to be large enough. An element not
  written yet is nil.
\<close>

record slice_header =
  array :: nat
  len :: nat
  cap :: nat

record 'a arrays =
  array_of :: "nat \<Rightarrow> 'a option list"
  next_array :: nat

definition no_arrays :: "'a arrays" where
  "no_arrays = \<lparr>array_of = (\<lambda>_. []), next_array = 0\<rparr>"

definition nil_slice :: slice_header where
  "nil_slice = \<lparr>array = 0, len = 0, cap = 0\<rparr>"

definition slice_elems :: "'a arrays \<Rightarrow> slice_header \<Rightarrow> 'a option list" where
  "slice_elems st s = take (len s) (array_of st (array s))"

definition go_append ::
  "(nat \<Rightarrow> nat \<Rightarrow> nat) \<Rightarrow> 'a arrays \<Rightarrow> slice_header \<Rightarrow> 'a \<Rightarrow> slice_header \<times> 'a arrays" where
  "go_append grow st s x =
     (if len s < cap s
      then (s\<lparr>len := len s + 1\<rparr>,
            st\<lparr>array_of := (array_of st)(array s := (array_of st (array s))[len s := Some x])\<rparr>)
      else
        (let c = grow (cap s) (len s + 1); p = next_array st
         in (\<lparr>array = p, len = len s + 1, cap = c\<rparr>,
             st\<lparr>array_of := (array_of st)(p := slice_elems st s @ [Some x] @ replicate (c - len s - 1) None),
                next_array := p + 1\<rparr>)))"

section \<open>TLS options\<close>

text \<open>A certificate watcher is given by the paths of its certificate and key.\<close>

type_synonym watcher = "string \<times> string"

record tls_config =
  NextProtos :: "string list"
  GetCertificate :: "watcher option"

text \<open>The two kinds of functions in the slices, and what they do to a configuration.\<close>

datatype tls_opt = disableHTTP2 | use_watcher watcher

primrec apply_opt :: "tls_opt \<Rightarrow> tls_config \<Rightarrow> tls_config" where
  "apply_opt disableHTTP2 c = c\<lparr>NextProtos := [''http/1.1'']\<rparr>"
| "apply_opt (use_watcher w) c = c\<lparr>GetCertificate := Some w\<rparr>"

text \<open>A server applies its options in order; calling a nil function panics.\<close>

fun apply_opts :: "tls_opt option list \<Rightarrow> tls_config \<Rightarrow> tls_config outcome" where
  "apply_opts [] c = Ret c"
| "apply_opts (None # opts) c = Panic"
| "apply_opts (Some f # opts) c = apply_opts opts (apply_opt f c)"

section \<open>The calls to the library\<close>

record metrics_options =
  BindAddress :: string
  SecureServing :: bool
  metrics_TLSOpts :: slice_header
  FilterProvider :: bool

record manager_options =
  Metrics :: metrics_options
  WebhookServer :: slice_header
  HealthProbeBindAddress :: string
  LeaderElection :: bool
  LeaderElectionResourceLock :: string
  LeaderElectionNamespace :: string
  LeaderElectionID :: string
  mo_LeaseDuration :: int
  mo_RenewDeadline :: int
  mo_RetryPeriod :: int

datatype call =
  PrintVersion | NewCertWatcher watcher | GetConfigOrDie | NewManager manager_options
| SetupReconciler controller_setup | SetupDNSClassWebhook webhook_setup | RegisterWebhook string | AddWatcher watcher
| AddHealthzCheck string | AddReadyzCheck string | StartManager

text \<open>
  The environment: which calls succeed, the environment variables, and how arrays grow.
\<close>

record environment =
  succeeds :: "call \<Rightarrow> bool"
  Getenv :: "string \<Rightarrow> string"
  growth :: "nat \<Rightarrow> nat \<Rightarrow> nat"

text \<open>A step of the program: it ends the process with the calls made so far, or goes on.\<close>

type_synonym 'a step = "call list + 'a"

primrec and_then_do :: "'a step \<Rightarrow> ('a \<Rightarrow> 'b step) \<Rightarrow> 'b step" where
  "and_then_do (Inl log) f = Inl log"
| "and_then_do (Inr x) f = f x"

definition attempt :: "environment \<Rightarrow> call \<Rightarrow> call list \<Rightarrow> call list step" where
  "attempt env c log = (if succeeds env c then Inr (log @ [c]) else Inl (log @ [c]))"

definition new_watcher ::
  "environment \<Rightarrow> string \<Rightarrow> string \<Rightarrow> string \<Rightarrow> call list \<Rightarrow> (watcher option \<times> call list) step" where
  "new_watcher env path name key log =
     (if length path > 0 then
        (let w = (filepath_Join path name, filepath_Join path key)
         in and_then_do (attempt env (NewCertWatcher w) log) (\<lambda>log. Inr (Some w, log)))
      else Inr (None, log))"

definition append_watcher ::
  "environment \<Rightarrow> tls_opt arrays \<Rightarrow> slice_header \<Rightarrow> watcher option \<Rightarrow> slice_header \<times> tls_opt arrays" where
  "append_watcher env st s w =
     (case w of None \<Rightarrow> (s, st) | Some w \<Rightarrow> go_append (growth env) st s (use_watcher w))"

definition add_watcher :: "environment \<Rightarrow> watcher option \<Rightarrow> call list \<Rightarrow> call list step" where
  "add_watcher env w log = (case w of None \<Rightarrow> Inr log | Some w \<Rightarrow> attempt env (AddWatcher w) log)"

text \<open>Up to the options of the manager, with the arrays the slices point into.\<close>

definition prepare :: "environment \<Rightarrow> flags \<Rightarrow>
    (manager_options \<times> tls_opt arrays \<times> watcher option \<times> watcher option \<times> call list) step" where
  "prepare env fl =
     (let (tlsOpts, st) =
            (if \<not> enableHTTP2 fl then go_append (growth env) no_arrays nil_slice disableHTTP2
             else (nil_slice, no_arrays));
          webhookTLSOpts = tlsOpts
      in and_then_do (new_watcher env (webhookCertPath fl) (webhookCertName fl) (webhookCertKey fl) [])
         (\<lambda>(webhookCertWatcher, log).
           (let (webhookTLSOpts, st) = append_watcher env st webhookTLSOpts webhookCertWatcher;
                webhookServer = webhookTLSOpts;
                metricsServerOptions =
                  \<lparr>BindAddress = metricsAddr fl, SecureServing = secureMetrics fl,
                   metrics_TLSOpts = tlsOpts, FilterProvider = False\<rparr>;
                metricsServerOptions =
                  (if secureMetrics fl then metricsServerOptions\<lparr>FilterProvider := True\<rparr> else metricsServerOptions)
            in and_then_do (new_watcher env (metricsCertPath fl) (metricsCertName fl) (metricsCertKey fl) log)
               (\<lambda>(metricsCertWatcher, log).
                 (let (opts, st) = append_watcher env st (metrics_TLSOpts metricsServerOptions) metricsCertWatcher;
                      metricsServerOptions = metricsServerOptions\<lparr>metrics_TLSOpts := opts\<rparr>;
                      le = leaderElection fl
                  in Inr (\<lparr>Metrics = metricsServerOptions, WebhookServer = webhookServer,
                           HealthProbeBindAddress = probeAddr fl, LeaderElection = LeaderElect le,
                           LeaderElectionResourceLock = ResourceLock le,
                           LeaderElectionNamespace = ResourceNamespace le,
                           LeaderElectionID = ResourceName le, mo_LeaseDuration = LeaseDuration le,
                           mo_RenewDeadline = RenewDeadline le, mo_RetryPeriod = RetryPeriod le\<rparr>,
                          st, metricsCertWatcher, webhookCertWatcher, log))))))"

text \<open>From the manager on.\<close>

definition run_manager :: "environment \<Rightarrow> flags \<Rightarrow>
    manager_options \<times> tls_opt arrays \<times> watcher option \<times> watcher option \<times> call list \<Rightarrow> call list step" where
  "run_manager env fl = (\<lambda>(opts, st, metricsCertWatcher, webhookCertWatcher, log).
     and_then_do (attempt env GetConfigOrDie log) (\<lambda>log.
     and_then_do (attempt env (NewManager opts) log) (\<lambda>log.
     and_then_do (attempt env (SetupReconciler (SetupWithManager (maxConcurrentReconciles fl))) log) (\<lambda>log.
     and_then_do (if Getenv env ''ENABLE_WEBHOOKS'' \<noteq> ''false'' then attempt env (SetupDNSClassWebhook SetupDNSClassWebhookWithManager) log
                  else Inr log) (\<lambda>log.
     let log = log @ [RegisterWebhook ''/mutate-v1-pod''] in
     and_then_do (add_watcher env metricsCertWatcher log) (\<lambda>log.
     and_then_do (add_watcher env webhookCertWatcher log) (\<lambda>log.
     and_then_do (attempt env (AddHealthzCheck ''healthz'') log) (\<lambda>log.
     and_then_do (attempt env (AddReadyzCheck ''readyz'') log) (\<lambda>log.
     attempt env StartManager log)))))))))"

text \<open>The process: the calls it makes and the status it ends with.\<close>

definition main :: "environment \<Rightarrow> flags \<Rightarrow> call list \<times> nat" where
  "main env fl =
     (if printVersion fl then ([PrintVersion], 0)
      else
        (case and_then_do (prepare env fl) (run_manager env fl) of
           Inl log \<Rightarrow> (log, 1)
         | Inr log \<Rightarrow> (log, 0)))"

section \<open>Which options the servers end up with\<close>

definition watcher_of :: "string \<Rightarrow> string \<Rightarrow> string \<Rightarrow> watcher option" where
  "watcher_of path name key = (if path = [] then None else Some (filepath_Join path name, filepath_Join path key))"

abbreviation webhook_watcher :: "flags \<Rightarrow> watcher option" where
  "webhook_watcher fl \<equiv> watcher_of (webhookCertPath fl) (webhookCertName fl) (webhookCertKey fl)"

abbreviation metrics_watcher :: "flags \<Rightarrow> watcher option" where
  "metrics_watcher fl \<equiv> watcher_of (metricsCertPath fl) (metricsCertName fl) (metricsCertKey fl)"

text \<open>Both servers append to one array: it has room for more than one element, and both append.\<close>

definition shared_array :: "environment \<Rightarrow> flags \<Rightarrow> bool" where
  "shared_array env fl \<longleftrightarrow>
     \<not> enableHTTP2 fl \<and> webhookCertPath fl \<noteq> [] \<and> metricsCertPath fl \<noteq> [] \<and> growth env 0 1 > 1"

definition protocol_opts :: "flags \<Rightarrow> tls_opt list" where
  "protocol_opts fl = (if enableHTTP2 fl then [] else [disableHTTP2])"

definition watcher_opts :: "watcher option \<Rightarrow> tls_opt list" where
  "watcher_opts w = (case w of None \<Rightarrow> [] | Some w \<Rightarrow> [use_watcher w])"

lemma new_watcher_cases:
  "new_watcher env path name key log =
     (case watcher_of path name key of
        None \<Rightarrow> Inr (None, log)
      | Some w \<Rightarrow> (if succeeds env (NewCertWatcher w) then Inr (Some w, log @ [NewCertWatcher w])
                 else Inl (log @ [NewCertWatcher w])))"
  by (simp add: new_watcher_def watcher_of_def attempt_def Let_def)

lemma prepare_parts:
  assumes "prepare env fl = Inr (opts, st, mw, ww, log)"
  obtains tlsOpts st0 st1 where
    "mw = metrics_watcher fl" "ww = webhook_watcher fl"
    "(if \<not> enableHTTP2 fl then go_append (growth env) no_arrays nil_slice disableHTTP2
      else (nil_slice, no_arrays)) = (tlsOpts, st0)"
    "append_watcher env st0 tlsOpts ww = (WebhookServer opts, st1)"
    "append_watcher env st1 tlsOpts mw = (metrics_TLSOpts (Metrics opts), st)"
  using assms
  by (auto simp: prepare_def new_watcher_cases Let_def split: prod.splits option.splits if_splits)

text \<open>The slice both servers start from, and the arrays then.\<close>

lemma first_append:
  "go_append grow no_arrays nil_slice x =
     (\<lparr>array = 0, len = 1, cap = grow 0 1\<rparr>,
      \<lparr>array_of = (\<lambda>_. [])(0 := Some x # replicate (grow 0 1 - 1) None), next_array = 1\<rparr>)"
  by (simp add: go_append_def no_arrays_def nil_slice_def slice_elems_def Let_def)

text \<open>What the two servers have appended to, by the flags.\<close>

lemma appended:
  assumes "growth env 0 (Suc 0) = Suc k" and "growth env (Suc 0) (Suc (Suc 0)) = Suc (Suc j)"
  shows "case (if \<not> enableHTTP2 fl then go_append (growth env) no_arrays nil_slice disableHTTP2
      else (nil_slice, no_arrays)) of (s0, st0) \<Rightarrow>
    (case append_watcher env st0 s0 ww of (s1, st1) \<Rightarrow>
    (case append_watcher env st1 s0 mw of (s2, st2) \<Rightarrow>
      slice_elems st2 s2 = map Some (protocol_opts fl @ watcher_opts mw) \<and>
      slice_elems st2 s1 = map Some (protocol_opts fl @
        watcher_opts (if \<not> enableHTTP2 fl \<and> ww \<noteq> None \<and> mw \<noteq> None \<and> k \<noteq> 0 then mw else ww))))"
  using assms
  by (cases "enableHTTP2 fl"; cases ww; cases mw; cases k)
    (simp_all add: append_watcher_def first_append watcher_opts_def protocol_opts_def go_append_def
      slice_elems_def nil_slice_def no_arrays_def Let_def numeral_2_eq_2)

lemma prepare_result:
  assumes "prepare env fl = Inr (opts, st, mw, ww, log)" and "1 \<le> growth env 0 1" and "2 \<le> growth env 1 2"
  shows "mw = metrics_watcher fl" "ww = webhook_watcher fl"
    "slice_elems st (metrics_TLSOpts (Metrics opts)) = map Some (protocol_opts fl @ watcher_opts mw)"
    "slice_elems st (WebhookServer opts) =
       map Some (protocol_opts fl @ watcher_opts (if shared_array env fl then mw else ww))"
proof -
  obtain k where k: "growth env 0 (Suc 0) = Suc k" using assms(2) by (cases "growth env 0 1") auto
  have "Suc (Suc 0) \<le> growth env (Suc 0) (Suc (Suc 0))" using assms(3) by (simp add: numeral_2_eq_2)
  then obtain j where j: "growth env (Suc 0) (Suc (Suc 0)) = Suc (Suc j)" by (metis add_Suc le_Suc_ex)
  show w: "mw = metrics_watcher fl" "ww = webhook_watcher fl" using prepare_parts [OF assms(1)] by blast+
  have "shared_array env fl \<longleftrightarrow> \<not> enableHTTP2 fl \<and> ww \<noteq> None \<and> mw \<noteq> None \<and> k \<noteq> 0"
    by (auto simp: shared_array_def k w watcher_of_def)
  moreover obtain s0 st0 st1 where
    p: "(if \<not> enableHTTP2 fl then go_append (growth env) no_arrays nil_slice disableHTTP2
      else (nil_slice, no_arrays)) = (s0, st0)"
      "append_watcher env st0 s0 ww = (WebhookServer opts, st1)"
      "append_watcher env st1 s0 mw = (metrics_TLSOpts (Metrics opts), st)"
    using prepare_parts [OF assms(1)] by blast
  ultimately show "slice_elems st (metrics_TLSOpts (Metrics opts)) = map Some (protocol_opts fl @ watcher_opts mw)"
    "slice_elems st (WebhookServer opts) =
       map Some (protocol_opts fl @ watcher_opts (if shared_array env fl then mw else ww))"
    using appended [OF k j, where fl = fl and ww = ww and mw = mw] unfolding p prod.case by simp_all
qed

lemma prepare_metrics:
  assumes "prepare env fl = Inr (opts, st, mw, ww, log)"
  shows "SecureServing (Metrics opts) = secureMetrics fl" "FilterProvider (Metrics opts) = secureMetrics fl"
    "BindAddress (Metrics opts) = metricsAddr fl"
  using assms
  by (auto simp: prepare_def new_watcher_cases Let_def split: prod.splits option.splits if_splits)

lemma apply_opts_append:
  "apply_opts (xs @ ys) c = obind (apply_opts xs c) (apply_opts ys)"
  by (induction xs c rule: apply_opts.induct) simp_all

lemma apply_watcher_opts:
  "apply_opts (map Some (protocol_opts fl @ watcher_opts w)) c =
     Ret (c\<lparr>NextProtos := (if enableHTTP2 fl then NextProtos c else [''http/1.1'']),
           GetCertificate := (case w of None \<Rightarrow> GetCertificate c | Some v \<Rightarrow> Some v)\<rparr>)"
  by (simp add: protocol_opts_def watcher_opts_def split: option.splits)

text \<open>
  Unless \<open>--enable-http2\<close> is given, both servers offer HTTP/1.1 only, whatever base
  configuration they start from, whatever certificates are given and however the slices of
  options grow; with the flag the protocols stay as they were. No option is a nil function, so
  neither server panics when it applies them.
\<close>

theorem servers_disable_http2:
  assumes "prepare env fl = Inr (opts, st, mw, ww, log)" and "1 \<le> growth env 0 1" and "2 \<le> growth env 1 2"
    and "s = WebhookServer opts \<or> s = metrics_TLSOpts (Metrics opts)"
  shows "\<exists>c. apply_opts (slice_elems st s) base = Ret c \<and>
    NextProtos c = (if enableHTTP2 fl then NextProtos base else [''http/1.1''])"
  using assms(4) by (auto simp: prepare_result(3,4) [OF assms(1-3)] apply_watcher_opts simp del: map_append)

text \<open>
  C29. The metrics server always serves the certificate of its own watcher. The webhook server
  serves its own unless the two servers append to the same backing array: when HTTP/2 is
  disabled, both certificate paths are given and the array of the first \<open>append\<close> has room for a
  second element, the metrics option overwrites the webhook's in place and the webhook server
  presents the metrics certificate. The language leaves that capacity open; the code is right for
  a runtime that allocates exactly one element.
\<close>

theorem servers_certificates:
  assumes "prepare env fl = Inr (opts, st, mw, ww, log)" and "1 \<le> growth env 0 1" and "2 \<le> growth env 1 2"
  shows "\<exists>c d. apply_opts (slice_elems st (metrics_TLSOpts (Metrics opts))) base = Ret c \<and>
    apply_opts (slice_elems st (WebhookServer opts)) base = Ret d \<and>
    GetCertificate c = (case metrics_watcher fl of None \<Rightarrow> GetCertificate base | Some w \<Rightarrow> Some w) \<and>
    GetCertificate d =
      (if \<not> enableHTTP2 fl \<and> webhookCertPath fl \<noteq> [] \<and> metricsCertPath fl \<noteq> [] \<and> growth env 0 1 > 1
       then metrics_watcher fl
       else (case webhook_watcher fl of None \<Rightarrow> GetCertificate base | Some w \<Rightarrow> Some w))"
proof -
  have "metrics_watcher fl \<noteq> None" if "shared_array env fl"
    using that by (simp add: shared_array_def watcher_of_def)
  then show ?thesis
    using prepare_result(1,2) [OF assms]
    unfolding prepare_result(3,4) [OF assms] apply_watcher_opts shared_array_def
    by (auto split: option.splits)
qed

section \<open>The calls in order\<close>

definition watcher_list :: "watcher option \<Rightarrow> watcher list" where
  "watcher_list w = (case w of None \<Rightarrow> [] | Some w \<Rightarrow> [w])"

definition certificate_calls :: "flags \<Rightarrow> call list" where
  "certificate_calls fl =
     map NewCertWatcher (watcher_list (webhook_watcher fl)) @ map NewCertWatcher (watcher_list (metrics_watcher fl))"

definition manager_calls ::
  "environment \<Rightarrow> flags \<Rightarrow> manager_options \<Rightarrow> watcher option \<Rightarrow> watcher option \<Rightarrow> call list" where
  "manager_calls env fl opts mw ww =
     [GetConfigOrDie, NewManager opts, SetupReconciler (SetupWithManager (maxConcurrentReconciles fl))] @
     (if Getenv env ''ENABLE_WEBHOOKS'' \<noteq> ''false'' then [SetupDNSClassWebhook SetupDNSClassWebhookWithManager] else []) @
     [RegisterWebhook ''/mutate-v1-pod''] @
     map AddWatcher (watcher_list mw) @ map AddWatcher (watcher_list ww) @
     [AddHealthzCheck ''healthz'', AddReadyzCheck ''readyz'', StartManager]"

text \<open>The calls of a start that nothing stops, given the options of the manager.\<close>

definition planned_calls :: "environment \<Rightarrow> flags \<Rightarrow> manager_options \<Rightarrow> call list" where
  "planned_calls env fl opts =
     certificate_calls fl @ manager_calls env fl opts (metrics_watcher fl) (webhook_watcher fl)"

text \<open>The registration of a handler cannot fail; the other calls are the environment's to answer.\<close>

definition goes_on :: "environment \<Rightarrow> call \<Rightarrow> bool" where
  "goes_on env c \<longleftrightarrow> (\<exists>path. c = RegisterWebhook path) \<or> succeeds env c"

text \<open>A plan is carried out up to its first failing call, which ends the process with status 1.\<close>

definition run_plan :: "environment \<Rightarrow> call list \<Rightarrow> call list \<times> nat" where
  "run_plan env cs =
     (if list_all (goes_on env) cs then (cs, 0)
      else (takeWhile (goes_on env) cs @ [hd (dropWhile (goes_on env) cs)], 1))"

text \<open>The options a start passes to the manager if it gets that far.\<close>

definition planned_options :: "environment \<Rightarrow> flags \<Rightarrow> manager_options" where
  "planned_options env fl = fst (projr (prepare (env\<lparr>succeeds := \<lambda>_. True\<rparr>) fl))"

primrec run_calls :: "environment \<Rightarrow> call list \<Rightarrow> call list \<Rightarrow> call list step" where
  "run_calls env log [] = Inr log"
| "run_calls env log (c # cs) =
     (if goes_on env c then run_calls env (log @ [c]) cs else Inl (log @ [c]))"

lemma run_calls_plan:
  "run_calls env log cs =
     (if list_all (goes_on env) cs then Inr (log @ cs)
      else Inl (log @ takeWhile (goes_on env) cs @ [hd (dropWhile (goes_on env) cs)]))"
  by (induction cs arbitrary: log) auto

lemma run_calls_append:
  "run_calls env log (cs @ ds) = and_then_do (run_calls env log cs) (\<lambda>log. run_calls env log ds)"
  by (induction cs arbitrary: log) auto

lemma and_then_do_Inr [simp]: "and_then_do m Inr = m"
  by (cases m) auto

lemma attempt_then:
  "and_then_do (attempt env c log) f = (if succeeds env c then f (log @ [c]) else Inl (log @ [c]))"
  by (simp add: attempt_def)

lemma add_watcher_then:
  "and_then_do (add_watcher env w log) (\<lambda>log. run_calls env log cs) =
     run_calls env log (map AddWatcher (watcher_list w) @ cs)"
  by (cases w) (simp_all add: add_watcher_def watcher_list_def attempt_then goes_on_def)

lemma run_manager_calls:
  "run_manager env fl (opts, st, mw, ww, log) = run_calls env log (manager_calls env fl opts mw ww)"
proof -
  have tail: "and_then_do (attempt env (AddHealthzCheck ''healthz'') log) (\<lambda>log.
      and_then_do (attempt env (AddReadyzCheck ''readyz'') log) (attempt env StartManager)) =
    run_calls env log [AddHealthzCheck ''healthz'', AddReadyzCheck ''readyz'', StartManager]" for log
    by (simp add: attempt_then goes_on_def) (simp add: attempt_def)
  show ?thesis
    unfolding run_manager_def prod.case tail add_watcher_then manager_calls_def
    by (simp add: attempt_then goes_on_def Let_def)
qed

lemma prepare_calls:
  "(case prepare env fl of Inl log \<Rightarrow> Inl log | Inr (opts, st, mw, ww, log) \<Rightarrow> Inr log) =
     run_calls env [] (certificate_calls fl)"
  "prepare env fl = Inr (opts, st, mw, ww, log) \<Longrightarrow> opts = planned_options env fl"
proof -
  show "(case prepare env fl of Inl log \<Rightarrow> Inl log | Inr (opts, st, mw, ww, log) \<Rightarrow> Inr log) =
     run_calls env [] (certificate_calls fl)"
    by (cases "webhook_watcher fl"; cases "metrics_watcher fl")
      (simp_all add: certificate_calls_def prepare_def new_watcher_cases Let_def watcher_list_def goes_on_def
        split_beta)
  show "opts = planned_options env fl" if "prepare env fl = Inr (opts, st, mw, ww, log)"
    using that
    by (cases "webhook_watcher fl"; cases "metrics_watcher fl")
      (auto simp: planned_options_def prepare_def new_watcher_cases Let_def append_watcher_def
        split: prod.splits if_splits)
qed

lemma main_plan:
  assumes "\<not> printVersion fl"
  shows "main env fl = run_plan env (planned_calls env fl (planned_options env fl))"
proof (cases "prepare env fl")
  case (Inl log)
  then have "run_calls env [] (certificate_calls fl) = Inl log"
    using prepare_calls(1) [of env fl] by simp
  then have "run_calls env [] (planned_calls env fl (planned_options env fl)) = Inl log"
    by (simp add: planned_calls_def run_calls_append)
  then show ?thesis
    using Inl assms by (auto simp: main_def run_calls_plan run_plan_def split: if_splits)
next
  case (Inr r)
  obtain opts st mw ww log where r: "r = (opts, st, mw, ww, log)" by (cases r)
  have o: "opts = planned_options env fl" and w: "mw = metrics_watcher fl" "ww = webhook_watcher fl"
    using prepare_calls(2) prepare_parts Inr r by blast+
  have "run_calls env [] (certificate_calls fl) = Inr log"
    using prepare_calls(1) [of env fl] Inr r by simp
  then have "run_manager env fl r = run_calls env [] (planned_calls env fl (planned_options env fl))"
    by (simp add: planned_calls_def run_calls_append r run_manager_calls o w)
  then show ?thesis
    using Inr assms by (auto simp: main_def run_calls_plan run_plan_def split: if_splits)
qed

text \<open>
  C28. What the process does, unless it only prints its version: it makes the planned calls in
  order (the certificate watchers that have a path, the manager, the reconciler, the webhooks of
  the class unless \<open>ENABLE_WEBHOOKS\<close> is \<open>false\<close>, the pod webhook in any case, the watchers and
  checks, and the start last) up to the first one that fails, and ends with status 1 in that case
  and with 0 when the manager was started and stopped without an error.
\<close>

theorem main_runs_plan:
  "main env fl =
     (if printVersion fl then ([PrintVersion], 0)
      else run_plan env (planned_calls env fl (planned_options env fl)))"
  by (simp add: main_plan) (simp add: main_def)

lemma run_plan_last:
  assumes "run_plan env (ds @ [c]) = (log, n)" and "c \<in> set log" and "c \<notin> set ds"
  shows "log = ds @ [c]"
proof (cases "list_all (goes_on env) ds")
  case True
  then show ?thesis using assms(1) by (auto simp: run_plan_def list_all_iff split: if_splits)
next
  case False
  then obtain b where b: "b \<in> set ds" "\<not> goes_on env b" by (auto simp: list_all_iff)
  then have d: "dropWhile (goes_on env) ds \<noteq> []" by (auto simp: dropWhile_eq_Nil_conv)
  then have "hd (dropWhile (goes_on env) ds) \<in> set ds" by (meson hd_in_set set_dropWhileD)
  moreover have "log = takeWhile (goes_on env) ds @ [hd (dropWhile (goes_on env) ds)]"
    using assms(1) False b d by (simp add: run_plan_def takeWhile_append1 dropWhile_append1)
  ultimately show ?thesis using assms(2,3) by (auto dest: set_takeWhileD)
qed

lemma main_call_all:
  "(\<And>c. succeeds env c) \<Longrightarrow> \<not> printVersion fl \<Longrightarrow>
   main env fl = (planned_calls env fl (planned_options env fl), 0)"
  by (simp add: main_plan run_plan_def list_all_iff goes_on_def)

text \<open>
  C35. A process that starts the manager has made every planned call before it: the pod webhook is
  registered whatever \<open>ENABLE_WEBHOOKS\<close> says, the reconciler is set up for the class with its event
  filter and the number of workers from the command line, the webhooks that default and validate
  classes exactly when the variable is not \<open>false\<close>, and the watcher of every certificate in use has been added. So
  \<open>ENABLE_WEBHOOKS=false\<close> leaves pods to be configured by classes that nothing validates.
\<close>

theorem start_registers_webhooks:
  assumes "main env fl = (log, status)" and "StartManager \<in> set log"
  shows "log = planned_calls env fl (planned_options env fl) \<and>
    RegisterWebhook ''/mutate-v1-pod'' \<in> set log \<and>
    {s. SetupReconciler s \<in> set log} = {SetupWithManager (maxConcurrentReconciles fl)} \<and>
    {s. SetupDNSClassWebhook s \<in> set log} =
      (if Getenv env ''ENABLE_WEBHOOKS'' \<noteq> ''false'' then {SetupDNSClassWebhookWithManager} else {}) \<and>
    {w. AddWatcher w \<in> set log} = set_option (webhook_watcher fl) \<union> set_option (metrics_watcher fl)"
proof -
  let ?cs = "planned_calls env fl (planned_options env fl)"
  have "\<exists>ds. ?cs = ds @ [StartManager] \<and> StartManager \<notin> set ds"
    by (auto simp: planned_calls_def manager_calls_def certificate_calls_def)
  then obtain ds where ds: "?cs = ds @ [StartManager]" "StartManager \<notin> set ds" by auto
  have "run_plan env (ds @ [StartManager]) = (log, status)"
    using assms main_plan [of fl env] ds(1) by (cases "printVersion fl") (auto simp: main_def)
  then have "log = ?cs" using run_plan_last [OF _ assms(2) ds(2)] ds(1) by simp
  then show ?thesis
    by (auto simp: planned_calls_def manager_calls_def certificate_calls_def watcher_list_def split: option.splits)
qed

section \<open>Instances\<close>

definition sample_env :: "(nat \<Rightarrow> nat \<Rightarrow> nat) \<Rightarrow> environment" where
  "sample_env grow = \<lparr>succeeds = \<lambda>_. True, Getenv = \<lambda>_. ''false'', growth = grow\<rparr>"

definition sample_flags :: flags where
  "sample_flags = default_flags
     \<lparr>webhookCertPath := ''/tmp/k8s-webhook-server/serving-certs/'',
      metricsCertPath := ''/tmp/k8s-metrics-server/metrics-certs''\<rparr>"

definition plain_tls :: tls_config where
  "plain_tls = \<lparr>NextProtos = [''h2''], GetCertificate = None\<rparr>"

lemma prepare_total:
  assumes "\<And>c. succeeds env c"
  shows "\<exists>opts st mw ww log. prepare env fl = Inr (opts, st, mw, ww, log)"
proof -
  have "run_calls env [] (certificate_calls fl) = Inr (certificate_calls fl)"
    using assms by (simp add: run_calls_plan goes_on_def list_all_iff)
  then show ?thesis using prepare_calls(1) [of env fl] by (auto split: sum.splits)
qed

lemma sample_watchers:
  "webhook_watcher sample_flags = Some (''/tmp/k8s-webhook-server/serving-certs/tls.crt'',
     ''/tmp/k8s-webhook-server/serving-certs/tls.key'')"
  "metrics_watcher sample_flags = Some (''/tmp/k8s-metrics-server/metrics-certs/tls.crt'',
     ''/tmp/k8s-metrics-server/metrics-certs/tls.key'')"
  by code_simp+

theorem servers_disable_http2_witness:
  "\<exists>opts st mw ww log c. prepare (sample_env (\<lambda>_ n. 2 * n)) sample_flags = Inr (opts, st, mw, ww, log) \<and>
     apply_opts (slice_elems st (WebhookServer opts)) plain_tls = Ret c \<and> NextProtos c = [''http/1.1'']"
proof -
  obtain opts st mw ww log where p: "prepare (sample_env (\<lambda>_ n. 2 * n)) sample_flags = Inr (opts, st, mw, ww, log)"
    using prepare_total [of "sample_env (\<lambda>_ n. 2 * n)" sample_flags] by (auto simp: sample_env_def)
  have "1 \<le> growth (sample_env (\<lambda>_ n. 2 * n)) 0 1" "2 \<le> growth (sample_env (\<lambda>_ n. 2 * n)) 1 2"
    by (simp_all add: sample_env_def)
  from servers_disable_http2 [OF p this, where s = "WebhookServer opts" and base = plain_tls] p
  show ?thesis by (auto simp: sample_flags_def default_flags_def)
qed

theorem servers_certificates_witness:
  "\<exists>opts st mw ww log d. prepare (sample_env (\<lambda>_ n. 2 * n)) sample_flags = Inr (opts, st, mw, ww, log) \<and>
     apply_opts (slice_elems st (WebhookServer opts)) plain_tls = Ret d \<and>
     GetCertificate d = Some (''/tmp/k8s-metrics-server/metrics-certs/tls.crt'',
       ''/tmp/k8s-metrics-server/metrics-certs/tls.key'')"
proof -
  obtain opts st mw ww log where p: "prepare (sample_env (\<lambda>_ n. 2 * n)) sample_flags = Inr (opts, st, mw, ww, log)"
    using prepare_total [of "sample_env (\<lambda>_ n. 2 * n)" sample_flags] by (auto simp: sample_env_def)
  have "1 \<le> growth (sample_env (\<lambda>_ n. 2 * n)) 0 1" "2 \<le> growth (sample_env (\<lambda>_ n. 2 * n)) 1 2"
    by (simp_all add: sample_env_def)
  note c = servers_certificates [OF p this, where base = plain_tls]
  have "\<not> enableHTTP2 sample_flags" "webhookCertPath sample_flags \<noteq> []" "metricsCertPath sample_flags \<noteq> []"
    "growth (sample_env (\<lambda>_ n. 2 * n)) 0 1 > 1"
    by (simp_all add: sample_env_def sample_flags_def default_flags_def)
  then show ?thesis using c p sample_watchers(2) by auto
qed

theorem start_registers_webhooks_witness:
  "\<exists>log. main (sample_env (\<lambda>_ n. n)) sample_flags = (log, 0) \<and>
     RegisterWebhook ''/mutate-v1-pod'' \<in> set log \<and> SetupDNSClassWebhook SetupDNSClassWebhookWithManager \<notin> set log"
proof -
  let ?env = "sample_env (\<lambda>_ n. n)"
  have m: "main ?env sample_flags = (planned_calls ?env sample_flags (planned_options ?env sample_flags), 0)"
    by (simp add: main_call_all sample_env_def sample_flags_def default_flags_def)
  have "StartManager \<in> set (planned_calls ?env sample_flags (planned_options ?env sample_flags))"
    by (simp add: planned_calls_def manager_calls_def)
  from start_registers_webhooks [OF m this] m show ?thesis by (simp add: sample_env_def)
qed

end
