(* ===== verification/Command_Line.thy ===== *)
theory Command_Line
  imports Process_Startup
begin

text \<open>
  The command line of the manager, the flags of \<open>cmd/main.go\<close>: the table of flags with their
  types, and what Go's \<open>flag\<close>, \<open>strconv\<close> and \<open>time\<close> packages make of the arguments. Strings are
  sequences of bytes. The flags that the logging and configuration libraries add to the same
  command line are a parameter, and so is the floating-point part of a duration with a fraction;
  nothing is assumed of either.
\<close>

section \<open>Booleans and integers\<close>

definition ParseBool :: "string \<Rightarrow> bool option" where
  "ParseBool s =
     (if s \<in> set [''1'', ''t'', ''T'', ''TRUE'', ''true'', ''True''] then Some True
      else if s \<in> set [''0'', ''f'', ''F'', ''FALSE'', ''false'', ''False''] then Some False
      else None)"

text \<open>\<open>lower\<close> of \<open>strconv\<close> sets the bit that tells small letters from capitals.\<close>

definition lower :: "char \<Rightarrow> char" where
  "lower c = char_of (Bit_Operations.or (of_char c) (32 :: nat))"

definition digit_of :: "char \<Rightarrow> nat option" where
  "digit_of c =
     (if is_digit c then Some (digit_value c)
      else if CHR ''a'' \<le> lower c \<and> lower c \<le> CHR ''z'' then Some (of_char (lower c) - 97 + 10)
      else None)"

text \<open>The loop of \<open>ParseUint\<close> with base 0: underscores are skipped here and checked afterwards.\<close>

fun parse_digits :: "nat \<Rightarrow> nat \<Rightarrow> string \<Rightarrow> nat option" where
  "parse_digits base n [] = Some n"
| "parse_digits base n (c # cs) =
     (if c = CHR ''_'' then parse_digits base n cs
      else
        (case digit_of c of
           None \<Rightarrow> None
         | Some d \<Rightarrow>
             (if base \<le> d then None
              else if 2 ^ 64 \<le> n * base + d then None
              else parse_digits base (n * base + d) cs)))"

text \<open>The base a number is written in, and the digits behind its prefix.\<close>

definition split_base :: "string \<Rightarrow> nat \<times> string" where
  "split_base s =
     (case s of
        c # cs \<Rightarrow>
          (if c \<noteq> CHR ''0'' then (10, s)
           else if 3 \<le> length s \<and> lower (hd cs) = CHR ''b'' then (2, tl cs)
           else if 3 \<le> length s \<and> lower (hd cs) = CHR ''o'' then (8, tl cs)
           else if 3 \<le> length s \<and> lower (hd cs) = CHR ''x'' then (16, tl cs)
           else (8, cs))
      | [] \<Rightarrow> (10, []))"

text \<open>\<open>underscoreOK\<close>: underscores only between digits, where a prefix counts as a digit.\<close>

fun underscores_ok :: "bool \<Rightarrow> char \<Rightarrow> string \<Rightarrow> bool" where
  "underscores_ok hex saw [] = (saw \<noteq> CHR ''_'')"
| "underscores_ok hex saw (c # cs) =
     (if is_digit c \<or> hex \<and> CHR ''a'' \<le> lower c \<and> lower c \<le> CHR ''f''
      then underscores_ok hex (CHR ''0'') cs
      else if c = CHR ''_'' then saw = CHR ''0'' \<and> underscores_ok hex (CHR ''_'') cs
      else saw \<noteq> CHR ''_'' \<and> underscores_ok hex (CHR ''!'') cs)"

definition underscoreOK :: "string \<Rightarrow> bool" where
  "underscoreOK s =
     (let s = snd (split_sign s)
      in case s of
           c # b # cs \<Rightarrow>
             (if c = CHR ''0'' \<and> lower b \<in> set ''box''
              then underscores_ok (lower b = CHR ''x'') (CHR ''0'') cs
              else underscores_ok False (CHR ''^'') s)
         | _ \<Rightarrow> underscores_ok False (CHR ''^'') s)"

definition ParseUint :: "string \<Rightarrow> nat option" where
  "ParseUint s =
     (if s = [] then None
      else
        (case split_base s of (base, ds) \<Rightarrow>
          (case parse_digits base 0 ds of
             None \<Rightarrow> None
           | Some n \<Rightarrow> (if CHR ''_'' \<in> set ds \<and> \<not> underscoreOK s then None else Some n))))"

text \<open>\<open>strconv.ParseInt(s, 0, 64)\<close>; None for an error.\<close>

definition ParseInt :: "string \<Rightarrow> int option" where
  "ParseInt s =
     (case split_sign s of (neg, t) \<Rightarrow>
        (case ParseUint t of
           None \<Rightarrow> None
         | Some un \<Rightarrow>
             (if \<not> neg \<and> 2 ^ 63 \<le> un then None
              else if neg \<and> 2 ^ 63 < un then None
              else Some (if neg then - int un else int un))))"

section \<open>Durations\<close>

definition unitMap :: "string \<rightharpoonup> nat" where
  "unitMap = map_of
     [(''ns'', 1), (''us'', 1000), ([CHR 0xC2, CHR 0xB5, CHR ''s''], 1000),
      ([CHR 0xCE, CHR 0xBC, CHR ''s''], 1000), (''ms'', 1000000), (''s'', 1000000000),
      (''m'', 60 * 1000000000), (''h'', 3600 * 1000000000)]"

text \<open>The characters that end a unit, and the digits behind a point.\<close>

definition starts_number :: "char \<Rightarrow> bool" where
  "starts_number c \<longleftrightarrow> c = CHR ''.'' \<or> is_digit c"

definition split_fraction :: "string \<Rightarrow> string \<times> string" where
  "split_fraction s =
     (case s of
        c # t \<Rightarrow> (if c = CHR ''.'' then (takeWhile is_digit t, dropWhile is_digit t) else ([], s))
      | [] \<Rightarrow> ([], []))"

text \<open>
  The loop of \<open>time.ParseDuration\<close>. The sum is a \<open>uint64\<close>: two summands of \<open>2^63\<close> wrap to zero and
  pass the check, as they do in Go. \<open>frac\<close> is what the digits of a fraction contribute.
\<close>

function duration_loop :: "(string \<Rightarrow> nat \<Rightarrow> nat) \<Rightarrow> nat \<Rightarrow> string \<Rightarrow> nat option" where
  "duration_loop frac d s =
     (if s = [] then Some d
      else if \<not> starts_number (hd s) then None
      else
        (let ds = takeWhile is_digit s;
             (fs, s) = split_fraction (dropWhile is_digit s);
             u = takeWhile (Not \<circ> starts_number) s;
             s = dropWhile (Not \<circ> starts_number) s;
             v = digits_value ds
         in if 2 ^ 63 < v then None
            else if ds = [] \<and> fs = [] then None
            else if u = [] then None
            else
              (case unitMap u of
                 None \<Rightarrow> None
               | Some unit \<Rightarrow>
                   (if 2 ^ 63 div unit < v then None
                    else
                      (let v = v * unit;
                           v = (if 0 < digits_value fs then v + frac fs unit else v);
                           d = (d + v) mod 2 ^ 64
                       in if 2 ^ 63 < v then None
                          else if 2 ^ 63 < d then None
                          else duration_loop frac d s)))))"
  by pat_completeness auto

lemma split_fraction_le: "split_fraction s = (fs, s') \<Longrightarrow> length s' \<le> length s"
  by (auto simp: split_fraction_def split: list.splits if_splits intro: le_SucI length_dropWhile_le)

lemma dropWhile_shorter:
  assumes "takeWhile P s \<noteq> []"
  shows "length (dropWhile P s) < length s"
proof -
  have "length s = length (takeWhile P s) + length (dropWhile P s)"
    by (metis length_append takeWhile_dropWhile_id)
  with assms show ?thesis by simp
qed

termination duration_loop
proof (relation "measure (\<lambda>(frac, d, s). length s)")
  show "wf (measure (\<lambda>(frac, d, s). length s))" by simp
next
  fix frac :: "string \<Rightarrow> nat \<Rightarrow> nat" and d s ds p fs s1 u s2 v unit w w' d'
  assume a: "p = split_fraction (dropWhile is_digit s)" "(fs, s1) = p"
    "u = takeWhile (Not \<circ> starts_number) s1" "s2 = dropWhile (Not \<circ> starts_number) s1" "u \<noteq> []"
  have "length s2 < length s1" using a(3-5) dropWhile_shorter by blast
  also have "length s1 \<le> length (dropWhile is_digit s)" using a(1,2) split_fraction_le by metis
  also have "\<dots> \<le> length s" by (rule length_dropWhile_le)
  finally show "((frac, d', s2), frac, d, s) \<in> measure (\<lambda>(frac, d, s). length s)" by simp
qed

declare duration_loop.simps [simp del]

text \<open>\<open>time.ParseDuration\<close>, in nanoseconds; None for an error.\<close>

definition ParseDuration :: "(string \<Rightarrow> nat \<Rightarrow> nat) \<Rightarrow> string \<Rightarrow> int option" where
  "ParseDuration frac s =
     (case split_sign s of (neg, t) \<Rightarrow>
        (if t = ''0'' then Some 0
         else if t = [] then None
         else
           (case duration_loop frac 0 t of
              None \<Rightarrow> None
            | Some d \<Rightarrow>
                (if neg then Some (- int d)
                 else if 2 ^ 63 - 1 < d then None
                 else Some (int d)))))"

section \<open>The flags\<close>

text \<open>The variable a flag sets.\<close>

datatype flag_var =
  BoolVar "bool \<Rightarrow> flags \<Rightarrow> flags" | IntVar "int \<Rightarrow> flags \<Rightarrow> flags"
| StringVar "string \<Rightarrow> flags \<Rightarrow> flags" | DurationVar "int \<Rightarrow> flags \<Rightarrow> flags"

definition flag_table :: "(string \<times> flag_var) list" where
  "flag_table =
     [(''version'', BoolVar (\<lambda>v. printVersion_update (\<lambda>_. v))),
      (''metrics-bind-address'', StringVar (\<lambda>v. metricsAddr_update (\<lambda>_. v))),
      (''health-probe-bind-address'', StringVar (\<lambda>v. probeAddr_update (\<lambda>_. v))),
      (''metrics-secure'', BoolVar (\<lambda>v. secureMetrics_update (\<lambda>_. v))),
      (''webhook-cert-path'', StringVar (\<lambda>v. webhookCertPath_update (\<lambda>_. v))),
      (''webhook-cert-name'', StringVar (\<lambda>v. webhookCertName_update (\<lambda>_. v))),
      (''webhook-cert-key'', StringVar (\<lambda>v. webhookCertKey_update (\<lambda>_. v))),
      (''metrics-cert-path'', StringVar (\<lambda>v. metricsCertPath_update (\<lambda>_. v))),
      (''metrics-cert-name'', StringVar (\<lambda>v. metricsCertName_update (\<lambda>_. v))),
      (''metrics-cert-key'', StringVar (\<lambda>v. metricsCertKey_update (\<lambda>_. v))),
      (''enable-http2'', BoolVar (\<lambda>v. enableHTTP2_update (\<lambda>_. v))),
      (''max-concurrent-reconciles-for-dnsclass-reconciler'', IntVar (\<lambda>v. maxConcurrentReconciles_update (\<lambda>_. v))),
      (''leader-elect'', BoolVar (\<lambda>v. leaderElection_update (LeaderElect_update (\<lambda>_. v)))),
      (''leader-elect-resource-lock'', StringVar (\<lambda>v. leaderElection_update (ResourceLock_update (\<lambda>_. v)))),
      (''leader-elect-resource-namespace'', StringVar (\<lambda>v. leaderElection_update (ResourceNamespace_update (\<lambda>_. v)))),
      (''leader-elect-resource-name'', StringVar (\<lambda>v. leaderElection_update (ResourceName_update (\<lambda>_. v)))),
      (''leader-elect-lease-duration'', DurationVar (\<lambda>v. leaderElection_update (LeaseDuration_update (\<lambda>_. v)))),
      (''leader-elect-renew-deadline'', DurationVar (\<lambda>v. leaderElection_update (RenewDeadline_update (\<lambda>_. v)))),
      (''leader-elect-retry-period'', DurationVar (\<lambda>v. leaderElection_update (RetryPeriod_update (\<lambda>_. v))))]"

text \<open>The \<open>Set\<close> of a flag; None for a value it rejects.\<close>

primrec flag_Set :: "(string \<Rightarrow> nat \<Rightarrow> nat) \<Rightarrow> flag_var \<Rightarrow> string \<Rightarrow> flags \<Rightarrow> flags option" where
  "flag_Set frac (BoolVar put) s fl = map_option (\<lambda>v. put v fl) (ParseBool s)"
| "flag_Set frac (IntVar put) s fl = map_option (\<lambda>v. put v fl) (ParseInt s)"
| "flag_Set frac (StringVar put) s fl = Some (put s fl)"
| "flag_Set frac (DurationVar put) s fl = map_option (\<lambda>v. put v fl) (ParseDuration frac s)"

primrec IsBoolFlag :: "flag_var \<Rightarrow> bool" where
  "IsBoolFlag (BoolVar put) = True"
| "IsBoolFlag (IntVar put) = False"
| "IsBoolFlag (StringVar put) = False"
| "IsBoolFlag (DurationVar put) = False"

text \<open>
  The flags of the libraries: whether a name is one, whether it needs no value, and which values
  it takes. They set nothing here. A name that is defined twice panics before \<open>main\<close> parses
  anything, so the program's own names come first.
\<close>

type_synonym library_flags = "string \<Rightarrow> (bool \<times> (string \<Rightarrow> bool)) option"

definition formal ::
  "(string \<Rightarrow> nat \<Rightarrow> nat) \<Rightarrow> library_flags \<Rightarrow> string \<Rightarrow> (bool \<times> (string \<Rightarrow> flags \<Rightarrow> flags option)) option" where
  "formal frac lib name =
     (case map_of flag_table name of
        Some var \<Rightarrow> Some (IsBoolFlag var, flag_Set frac var)
      | None \<Rightarrow>
          (case lib name of
             Some (b, accepts) \<Rightarrow> Some (b, \<lambda>s fl. if accepts s then Some fl else None)
           | None \<Rightarrow> None))"

section \<open>Reading the arguments\<close>

text \<open>What an argument is: not a flag, the terminator \<open>--\<close>, badly written, or a name and a value.\<close>

datatype word = NoFlag | Terminator | BadSyntax | FlagWord string "string option"

definition split_value :: "string \<Rightarrow> string \<times> string option" where
  "split_value name =
     (let n = hd name # takeWhile (\<lambda>c. c \<noteq> CHR ''='') (tl name)
      in case dropWhile (\<lambda>c. c \<noteq> CHR ''='') (tl name) of
           [] \<Rightarrow> (n, None)
         | e # value \<Rightarrow> (n, Some value))"

definition read_word :: "string \<Rightarrow> word" where
  "read_word s =
     (if length s < 2 \<or> s ! 0 \<noteq> CHR ''-'' then NoFlag
      else if s = ''--'' then Terminator
      else
        (let name = (if s ! 1 = CHR ''-'' then drop 2 s else drop 1 s)
         in if name = [] \<or> hd name = CHR ''-'' \<or> hd name = CHR ''='' then BadSyntax
            else (case split_value name of (n, value) \<Rightarrow> FlagWord n value)))"

text \<open>\<open>flag.Parse\<close>: the variables it leaves, or the status it ends the process with.\<close>

fun flag_Parse :: "(string \<Rightarrow> nat \<Rightarrow> nat) \<Rightarrow> library_flags \<Rightarrow> flags \<Rightarrow> string list \<Rightarrow> nat + flags" where
  "flag_Parse frac lib fl [] = Inr fl"
| "flag_Parse frac lib fl (s # args) =
     (case read_word s of
        NoFlag \<Rightarrow> Inr fl
      | Terminator \<Rightarrow> Inr fl
      | BadSyntax \<Rightarrow> Inl 2
      | FlagWord name value \<Rightarrow>
          (case formal frac lib name of
             None \<Rightarrow> Inl (if name = ''help'' \<or> name = ''h'' then 0 else 2)
           | Some (is_bool, set_value) \<Rightarrow>
               (case value of
                  Some v \<Rightarrow>
                    (case set_value v fl of None \<Rightarrow> Inl 2 | Some fl \<Rightarrow> flag_Parse frac lib fl args)
                | None \<Rightarrow>
                    (if is_bool then
                       (case set_value ''true'' fl of None \<Rightarrow> Inl 2 | Some fl \<Rightarrow> flag_Parse frac lib fl args)
                     else
                       (case args of
                          [] \<Rightarrow> Inl 2
                        | v # args \<Rightarrow>
                            (case set_value v fl of None \<Rightarrow> Inl 2 | Some fl \<Rightarrow> flag_Parse frac lib fl args))))))"

text \<open>The process on its arguments.\<close>

definition start_process ::
  "(string \<Rightarrow> nat \<Rightarrow> nat) \<Rightarrow> library_flags \<Rightarrow> environment \<Rightarrow> string list \<Rightarrow> call list \<times> nat" where
  "start_process frac lib env args =
     (case flag_Parse frac lib default_flags args of
        Inl status \<Rightarrow> ([], status)
      | Inr fl \<Rightarrow> main env fl)"

section \<open>The range of the values\<close>

definition int64 :: "int \<Rightarrow> bool" where
  "int64 i \<longleftrightarrow> - (2 ^ 63) \<le> i \<and> i < 2 ^ 63"

lemma ParseInt_int64: "ParseInt s = Some i \<Longrightarrow> int64 i"
  by (auto simp: ParseInt_def int64_def split: prod.splits option.splits if_splits)

text \<open>One round of the loop.\<close>

lemma duration_loop_round:
  assumes "duration_loop frac d s = Some r" and "s \<noteq> []"
  shows "\<exists>d' s'. length s' < length s \<and> d' \<le> 2 ^ 63 \<and> duration_loop frac d' s' = Some r"
proof -
  obtain fs t where t: "split_fraction (dropWhile is_digit s) = (fs, t)" by fastforce
  let ?s' = "dropWhile (Not \<circ> starts_number) t"
  from assms obtain d' where d: "takeWhile (Not \<circ> starts_number) t \<noteq> []" "d' \<le> 2 ^ 63"
    "duration_loop frac d' ?s' = Some r"
    by (subst (asm) duration_loop.simps) (auto simp: t Let_def not_less split: if_splits option.splits)
  have "length ?s' < length t" using d(1) by (rule dropWhile_shorter)
  also have "length t \<le> length (dropWhile is_digit s)" using t by (rule split_fraction_le)
  also have "\<dots> \<le> length s" by (rule length_dropWhile_le)
  finally show ?thesis using d by blast
qed

lemma duration_loop_bound: "d \<le> 2 ^ 63 \<Longrightarrow> duration_loop frac d s = Some r \<Longrightarrow> r \<le> 2 ^ 63"
proof (induction "length s" arbitrary: d s rule: less_induct)
  case less
  show ?case
  proof (cases "s = []")
    case True
    with less.prems show ?thesis by (simp add: duration_loop.simps)
  next
    case False
    then show ?thesis using duration_loop_round less by blast
  qed
qed

lemma ParseDuration_int64: "ParseDuration frac s = Some i \<Longrightarrow> int64 i"
proof -
  assume p: "ParseDuration frac s = Some i"
  obtain neg t where st: "split_sign s = (neg, t)" by fastforce
  show "int64 i"
  proof (cases "duration_loop frac 0 t")
    case None
    with p st show ?thesis by (auto simp: ParseDuration_def int64_def split: if_splits)
  next
    case (Some d)
    then have "d \<le> 2 ^ 63" using duration_loop_bound [of 0] by simp
    with p st Some show ?thesis by (auto simp: ParseDuration_def int64_def split: if_splits)
  qed
qed

text \<open>The numbers of the flags fit their 64-bit variables.\<close>

definition flags_valid :: "flags \<Rightarrow> bool" where
  "flags_valid fl \<longleftrightarrow>
     int64 (maxConcurrentReconciles fl) \<and> int64 (LeaseDuration (leaderElection fl)) \<and>
     int64 (RenewDeadline (leaderElection fl)) \<and> int64 (RetryPeriod (leaderElection fl))"

definition flag_names :: "string list \<Rightarrow> string set" where
  "flag_names args = {name. \<exists>a \<in> set args. \<exists>value. read_word a = FlagWord name value}"

text \<open>One flag, with the value it takes from its own or from the next argument.\<close>

lemma flag_Parse_round:
  assumes "read_word s = FlagWord name w" and "flag_Parse frac lib fl (s # rest) = Inr fl'"
  shows "\<exists>b set_value v fl1 rest1. formal frac lib name = Some (b, set_value) \<and> set_value v fl = Some fl1 \<and>
    flag_Parse frac lib fl1 rest1 = Inr fl' \<and> length rest1 < length (s # rest) \<and> set rest1 \<subseteq> set (s # rest)"
proof -
  from assms obtain b set_value where f: "formal frac lib name = Some (b, set_value)"
    by (cases "formal frac lib name") auto
  have "\<exists>v fl1 rest1. set_value v fl = Some fl1 \<and> flag_Parse frac lib fl1 rest1 = Inr fl' \<and>
    length rest1 < length (s # rest) \<and> set rest1 \<subseteq> set (s # rest)"
  proof (cases w)
    case (Some v)
    then show ?thesis using assms f by (intro exI [of _ v]) (auto split: option.splits)
  next
    case None
    show ?thesis
    proof (cases b)
      case True
      then show ?thesis using assms f None by (intro exI [of _ "''true''"]) (auto split: option.splits)
    next
      case False
      then obtain v rest' where r: "rest = v # rest'" using assms f None by (cases rest) auto
      obtain fl1 where "set_value v fl = Some fl1" "flag_Parse frac lib fl1 rest' = Inr fl'"
        using assms f None False r by (auto split: option.splits)
      then show ?thesis using r by (intro exI conjI) auto
    qed
  qed
  with f show ?thesis by blast
qed

text \<open>What every \<open>Set\<close> of a named flag keeps holds of the parsed variables.\<close>

lemma flag_Parse_invariant:
  assumes "\<And>name b set_value v fl fl'. name \<in> flag_names args0 \<Longrightarrow> formal frac lib name = Some (b, set_value) \<Longrightarrow>
      set_value v fl = Some fl' \<Longrightarrow> I fl \<Longrightarrow> I fl'"
    and "set args \<subseteq> set args0" and "flag_Parse frac lib fl args = Inr fl'" and "I fl"
  shows "I fl'"
  using assms(2-4)
proof (induction "length args" arbitrary: fl args rule: less_induct)
  case less
  show ?case
  proof (cases args)
    case Nil
    with less.prems show ?thesis by simp
  next
    case (Cons s rest)
    show ?thesis
    proof (cases "read_word s")
      case (FlagWord name w)
      have n: "name \<in> flag_names args0" using FlagWord Cons less.prems(1) by (auto simp: flag_names_def)
      obtain b set_value v fl1 args1 where
        f: "formal frac lib name = Some (b, set_value)" "set_value v fl = Some fl1"
          "flag_Parse frac lib fl1 args1 = Inr fl'" "length args1 < length args" "set args1 \<subseteq> set args"
        using flag_Parse_round [OF FlagWord, of frac lib fl rest fl'] less.prems(2) unfolding Cons by blast
      have "I fl1" using assms(1) [OF n f(1,2) less.prems(3)] .
      then show ?thesis using less.hyps [OF f(4) _ f(3)] f(5) less.prems(1) by blast
    qed (use less.prems Cons in simp_all)
  qed
qed

lemma flag_Set_valid:
  assumes "(name, var) \<in> set flag_table" and "flag_Set frac var v fl = Some fl'" and "flags_valid fl"
  shows "flags_valid fl'"
  using assms
  by (auto simp: flag_table_def flags_valid_def) (rule ParseInt_int64 ParseDuration_int64, assumption)+

lemma formal_cases:
  assumes "formal frac lib name = Some (b, set_value)" and "set_value v fl = Some fl'"
  obtains "fl' = fl" | var where "(name, var) \<in> set flag_table" "flag_Set frac var v fl = Some fl'"
  using assms by (auto simp: formal_def split: option.splits if_splits dest: map_of_SomeD)

lemma default_flags_valid: "flags_valid default_flags"
  by (simp add: flags_valid_def default_flags_def int64_def time_Second_def)

lemma parsed_flags_valid:
  assumes "flag_Parse frac lib default_flags args = Inr fl"
  shows "flags_valid fl"
proof (rule flag_Parse_invariant [where I = flags_valid, OF _ subset_refl assms default_flags_valid])
  fix name b set_value v fl fl'
  assume "formal frac lib name = Some (b, set_value)" "set_value v fl = Some fl'" "flags_valid fl"
  then show "flags_valid fl'" by (metis formal_cases flag_Set_valid)
qed

section \<open>Writing a command line\<close>

definition FormatInt :: "int \<Rightarrow> string" where
  "FormatInt i = (if i < 0 then CHR ''-'' # FormatUint (nat (- i)) else FormatUint (nat i))"

definition FormatBool :: "bool \<Rightarrow> string" where
  "FormatBool b = (if b then ''true'' else ''false'')"

definition show_flag :: "string \<Rightarrow> string \<Rightarrow> string" where
  "show_flag name text = ''--'' @ name @ ''='' @ text"

text \<open>A command line that gives every flag its value, durations in nanoseconds.\<close>

definition command_line :: "flags \<Rightarrow> string list" where
  "command_line fl =
     (let le = leaderElection fl
      in [show_flag ''version'' (FormatBool (printVersion fl)),
          show_flag ''metrics-bind-address'' (metricsAddr fl),
          show_flag ''health-probe-bind-address'' (probeAddr fl),
          show_flag ''metrics-secure'' (FormatBool (secureMetrics fl)),
          show_flag ''webhook-cert-path'' (webhookCertPath fl),
          show_flag ''webhook-cert-name'' (webhookCertName fl),
          show_flag ''webhook-cert-key'' (webhookCertKey fl),
          show_flag ''metrics-cert-path'' (metricsCertPath fl),
          show_flag ''metrics-cert-name'' (metricsCertName fl),
          show_flag ''metrics-cert-key'' (metricsCertKey fl),
          show_flag ''enable-http2'' (FormatBool (enableHTTP2 fl)),
          show_flag ''max-concurrent-reconciles-for-dnsclass-reconciler''
            (FormatInt (maxConcurrentReconciles fl)),
          show_flag ''leader-elect'' (FormatBool (LeaderElect le)),
          show_flag ''leader-elect-resource-lock'' (ResourceLock le),
          show_flag ''leader-elect-resource-namespace'' (ResourceNamespace le),
          show_flag ''leader-elect-resource-name'' (ResourceName le),
          show_flag ''leader-elect-lease-duration'' (FormatInt (LeaseDuration le) @ ''ns''),
          show_flag ''leader-elect-renew-deadline'' (FormatInt (RenewDeadline le) @ ''ns''),
          show_flag ''leader-elect-retry-period'' (FormatInt (RetryPeriod le) @ ''ns'')])"

lemma ParseBool_FormatBool [simp]: "ParseBool (FormatBool b) = Some b"
  by (simp add: ParseBool_def FormatBool_def)

lemma digits_foldl_mono: "n \<le> foldl (\<lambda>n c. 10 * n + digit_value c) n s"
proof (induction s arbitrary: n)
  case Nil
  then show ?case by simp
next
  case (Cons c s)
  have "n \<le> 10 * n + digit_value c" by simp
  also have "\<dots> \<le> foldl (\<lambda>n c. 10 * n + digit_value c) (10 * n + digit_value c) s" by (rule Cons.IH)
  finally show ?case by simp
qed

lemma digit_facts:
  assumes "is_digit c"
  shows "digit_value c < 10" "digit_of c = Some (digit_value c)" "c \<noteq> CHR ''_''" "c \<noteq> CHR ''-''" "c \<noteq> CHR ''+''"
  using assms by (auto simp: is_digit_def digit_value_def digit_of_def less_eq_char_def)

lemma parse_digits_decimal:
  assumes "list_all is_digit s" and "foldl (\<lambda>n c. 10 * n + digit_value c) n s < 2 ^ 64"
  shows "parse_digits 10 n s = Some (foldl (\<lambda>n c. 10 * n + digit_value c) n s)"
  using assms
proof (induction s arbitrary: n)
  case Nil
  then show ?case by simp
next
  case (Cons c s)
  have "10 * n + digit_value c < 2 ^ 64"
    using Cons.prems(2) digits_foldl_mono [of "10 * n + digit_value c" s] by (simp del: power_numeral)
  then show ?case
    using Cons digit_facts [of c] by (simp add: mult.commute del: power_numeral)
qed

text \<open>The text of a positive number does not start with a zero, so its base is ten.\<close>

lemma FormatUint_first: "0 < n \<Longrightarrow> hd (FormatUint n) \<noteq> CHR ''0''"
proof (induction n rule: FormatUint.induct)
  case (1 n)
  show ?case
  proof (cases "n < 10")
    case True
    have "of_char (digit_char n) = 48 + n" using True by (simp add: digit_char_def)
    then have "digit_char n \<noteq> CHR ''0''" using 1 by auto
    then show ?thesis using True by (simp add: FormatUint.simps [of n])
  next
    case False
    then have "hd (FormatUint (n div 10)) \<noteq> CHR ''0''" using 1 by simp
    then show ?thesis
      using False FormatUint_digits [of "n div 10"] by (simp add: FormatUint.simps [of n])
  qed
qed

lemma ParseUint_FormatUint:
  assumes "n < 2 ^ 64"
  shows "ParseUint (FormatUint n) = Some n"
proof (cases "n = 0")
  case True
  then show ?thesis
    by (simp add: FormatUint.simps digit_char_simps ParseUint_def split_base_def)
next
  case False
  note d = FormatUint_digits [of n]
  have "split_base (FormatUint n) = (10, FormatUint n)"
    using d FormatUint_first [of n] False by (cases "FormatUint n") (simp_all add: split_base_def)
  moreover have "CHR ''_'' \<notin> set (FormatUint n)" using d digit_facts(3) by (auto simp: list_all_iff)
  moreover have "parse_digits 10 0 (FormatUint n) = Some n"
    using parse_digits_decimal [of "FormatUint n" 0] d assms by (simp add: digits_value_def)
  ultimately show ?thesis using d by (simp add: ParseUint_def)
qed

lemma split_sign_FormatInt:
  "split_sign (FormatInt i @ t) = (i < 0, FormatUint (nat \<bar>i\<bar>) @ t)"
proof (cases "i < 0")
  case True
  then show ?thesis by (simp add: FormatInt_def split_sign_def)
next
  case False
  then show ?thesis
    using FormatUint_digits [of "nat i"] digit_facts(4,5)
    by (cases "FormatUint (nat i)") (auto simp: FormatInt_def split_sign_def)
qed

lemma ParseInt_FormatInt:
  assumes "int64 i"
  shows "ParseInt (FormatInt i) = Some i"
proof -
  have "nat \<bar>i\<bar> < 2 ^ 64" using assms by (auto simp: int64_def)
  then show ?thesis
    using assms split_sign_FormatInt [of i "[]"] ParseUint_FormatUint
    by (auto simp: ParseInt_def int64_def)
qed

lemma ParseDuration_FormatInt:
  assumes "int64 i"
  shows "ParseDuration frac (FormatInt i @ ''ns'') = Some i"
proof -
  let ?ds = "FormatUint (nat \<bar>i\<bar>)"
  note d = FormatUint_digits [of "nat \<bar>i\<bar>"]
  have v: "nat \<bar>i\<bar> \<le> 2 ^ 63" using assms by (auto simp: int64_def)
  have t: "takeWhile is_digit (?ds @ ''ns'') = ?ds" "dropWhile is_digit (?ds @ ''ns'') = ''ns''"
    using d by (auto simp: list_all_iff is_digit_def less_eq_char_def takeWhile_append dropWhile_append)
  have h: "starts_number (hd (?ds @ ''ns''))" using d by (cases ?ds) (auto simp: starts_number_def)
  have u: "split_fraction ''ns'' = ([], ''ns'')" "takeWhile (Not \<circ> starts_number) ''ns'' = ''ns''"
    "dropWhile (Not \<circ> starts_number) ''ns'' = []" "unitMap ''ns'' = Some 1"
    by (simp_all add: split_fraction_def unitMap_def starts_number_def is_digit_def less_eq_char_def)
  have e: "duration_loop frac d [] = Some d" for d by (subst duration_loop.simps) simp
  have z: "digits_value [] = 0" by (simp add: digits_value_def)
  have "duration_loop frac 0 (?ds @ ''ns'') = Some (nat \<bar>i\<bar>)"
    using v d h by (subst duration_loop.simps) (simp only: t u e z Let_def prod.case option.case, simp)
  moreover have "?ds @ ''ns'' \<noteq> ''0''" using d by (cases ?ds) auto
  ultimately show ?thesis
    using assms v split_sign_FormatInt [of i "''ns''"] by (auto simp: ParseDuration_def int64_def)
qed

text \<open>A written flag of the table is read as that flag.\<close>

definition plain_name :: "string \<Rightarrow> bool" where
  "plain_name name \<longleftrightarrow> name \<noteq> [] \<and> hd name \<noteq> CHR ''-'' \<and> CHR ''='' \<notin> set name"

lemma flag_table_plain: "list_all (plain_name \<circ> fst) flag_table"
  by (simp add: flag_table_def plain_name_def)

lemma split_value_plain:
  assumes "plain_name name"
  shows "split_value (name @ CHR ''='' # t) = (name, Some t)"
proof -
  obtain c cs where n: "name = c # cs" "CHR ''='' \<notin> set cs" using assms by (cases name) (auto simp: plain_name_def)
  have "takeWhile (\<lambda>c. c \<noteq> CHR ''='') (cs @ CHR ''='' # t) = cs"
    "dropWhile (\<lambda>c. c \<noteq> CHR ''='') (cs @ CHR ''='' # t) = CHR ''='' # t"
    using n(2) by (auto intro: takeWhile_dropWhile_unique)
  then show ?thesis by (simp add: split_value_def n(1))
qed

lemma read_word_show:
  assumes "plain_name name"
  shows "read_word (show_flag name t) = FlagWord name (Some t)"
proof -
  have "name \<noteq> []" "hd name \<noteq> CHR ''-''" "hd name \<noteq> CHR ''=''"
    using assms by (cases name; auto simp: plain_name_def)+
  then show ?thesis
    using split_value_plain [OF assms, of t] by (simp add: read_word_def show_flag_def)
qed

lemma flag_Parse_show:
  assumes "map_of flag_table name = Some var"
  shows "flag_Parse frac lib fl (show_flag name t # args) =
    (case flag_Set frac var t fl of None \<Rightarrow> Inl 2 | Some fl \<Rightarrow> flag_Parse frac lib fl args)"
proof -
  have "plain_name name" using flag_table_plain map_of_SomeD [OF assms] by (auto simp: list_all_iff)
  from read_word_show [OF this, of t] assms show ?thesis by (simp add: formal_def)
qed

lemma flag_Parse_command_line:
  assumes "flags_valid fl"
  shows "flag_Parse frac lib fl0 (command_line fl) = Inr fl"
proof -
  obtain "int64 (maxConcurrentReconciles fl)" "int64 (LeaseDuration (leaderElection fl))"
    "int64 (RenewDeadline (leaderElection fl))" "int64 (RetryPeriod (leaderElection fl))"
    using assms by (simp add: flags_valid_def)
  note n = this [THEN ParseInt_FormatInt] this [THEN ParseDuration_FormatInt, of frac]
  show ?thesis
    unfolding command_line_def Let_def
    by (cases fl; cases "leaderElection fl") 
      (insert n, simp add: flag_Parse_show flag_table_def del: flag_Parse.simps(2))
qed

section \<open>What the command line promises\<close>

text \<open>A variable that only the flag \<open>name\<close> sets keeps its value when no argument names the flag.\<close>

primrec keeps :: "(flags \<Rightarrow> 'a) \<Rightarrow> flag_var \<Rightarrow> bool" where
  "keeps g (BoolVar put) = (\<forall>v fl. g (put v fl) = g fl)"
| "keeps g (IntVar put) = (\<forall>v fl. g (put v fl) = g fl)"
| "keeps g (StringVar put) = (\<forall>v fl. g (put v fl) = g fl)"
| "keeps g (DurationVar put) = (\<forall>v fl. g (put v fl) = g fl)"

lemma flag_Set_keeps: "keeps g var \<Longrightarrow> flag_Set frac var v fl = Some fl' \<Longrightarrow> g fl' = g fl"
  by (cases var) auto

lemma flag_Parse_keeps:
  assumes g: "list_all (\<lambda>(n, var). n = name \<or> keeps g var) flag_table"
    and n: "name \<notin> flag_names args" and p: "flag_Parse frac lib fl args = Inr fl'"
  shows "g fl' = g fl"
proof (rule flag_Parse_invariant [where I = "\<lambda>f. g f = g fl", OF _ subset_refl p refl])
  fix m b set_value v f f'
  assume m: "m \<in> flag_names args" and f: "formal frac lib m = Some (b, set_value)" "set_value v f = Some f'"
    and "g f = g fl"
  have "g f' = g f"
  proof (rule formal_cases [OF f])
    assume "f' = f"
    then show "g f' = g f" by simp
  next
    fix var
    assume var: "(m, var) \<in> set flag_table" "flag_Set frac var v f = Some f'"
    have "keeps g var" using g var(1) m n by (auto simp: list_all_iff)
    then show "g f' = g f" using var(2) by (rule flag_Set_keeps)
  qed
  with \<open>g f = g fl\<close> show "g f' = g fl" by simp
qed

lemma table_keeps:
  "list_all (\<lambda>(n, var). n = ''enable-http2'' \<or> keeps enableHTTP2 var) flag_table"
  "list_all (\<lambda>(n, var). n = ''metrics-secure'' \<or> keeps secureMetrics var) flag_table"
  by (simp_all add: flag_table_def)

lemma unnamed_flags:
  assumes "flag_Parse frac lib default_flags args = Inr fl"
  shows "''enable-http2'' \<notin> flag_names args \<Longrightarrow> \<not> enableHTTP2 fl"
    and "''metrics-secure'' \<notin> flag_names args \<Longrightarrow> secureMetrics fl"
  using table_keeps [THEN flag_Parse_keeps, OF _ assms] by (simp_all add: default_flags_def)

text \<open>
  C26. A command line can say exactly the values that fit the variables: the one that gives every flag
  its value is read back as these values, whatever the libraries add to the command line and
  however fractions are rounded, and this holds of no other values, since every accepted command
  line leaves numbers within 64 bits.
\<close>

theorem command_line_roundtrip:
  "flag_Parse frac lib default_flags (command_line fl) = Inr fl \<longleftrightarrow> flags_valid fl"
  using flag_Parse_command_line parsed_flags_valid by blast

text \<open>
  C36. The defaults are the secure ones: unless an argument names \<open>enable-http2\<close>, neither server
  offers more than HTTP/1.1, whatever base configuration it starts from and however the slices of
  options grow, and applying the options does not panic; unless an argument names
  \<open>metrics-secure\<close>, the metrics are served over TLS and only to authorized clients.
\<close>

theorem unnamed_flags_stay_secure:
  assumes "flag_Parse frac lib default_flags args = Inr fl"
    and "prepare env fl = Inr (opts, st, mw, ww, log)" and "1 \<le> growth env 0 1" and "2 \<le> growth env 1 2"
    and "s = WebhookServer opts \<or> s = metrics_TLSOpts (Metrics opts)"
  shows "\<exists>c. apply_opts (slice_elems st s) base = Ret c \<and>
    (''enable-http2'' \<notin> flag_names args \<longrightarrow> NextProtos c = [''http/1.1'']) \<and>
    (''metrics-secure'' \<notin> flag_names args \<longrightarrow>
       SecureServing (Metrics opts) \<and> FilterProvider (Metrics opts))"
  using unnamed_flags(1,2) [OF assms(1)] prepare_metrics(1,2) [OF assms(2)] assms(5)
  by (auto simp: prepare_result(3,4) [OF assms(2-4)] apply_watcher_opts simp del: map_append)

theorem unnamed_flags_stay_secure_witness:
  "\<exists>fl opts st mw ww log c.
     flag_Parse (\<lambda>_ _. 0) (\<lambda>_. None) default_flags [''--leader-elect'', ''-metrics-bind-address'', '':8443''] = Inr fl \<and>
     metricsAddr fl = '':8443'' \<and> prepare (sample_env (\<lambda>_ n. 2 * n)) fl = Inr (opts, st, mw, ww, log) \<and>
     apply_opts (slice_elems st (metrics_TLSOpts (Metrics opts))) plain_tls = Ret c \<and>
     NextProtos c = [''http/1.1''] \<and> FilterProvider (Metrics opts)"
proof -
  let ?args = "[''--leader-elect'', ''-metrics-bind-address'', '':8443'']" and ?env = "sample_env (\<lambda>_ n. 2 * n)"
  have w: "read_word ''--leader-elect'' = FlagWord ''leader-elect'' None"
    "read_word ''-metrics-bind-address'' = FlagWord ''metrics-bind-address'' None" "read_word '':8443'' = NoFlag"
    by (simp_all add: read_word_def split_value_def numeral_2_eq_2)
  then have n: "flag_names ?args = {''leader-elect'', ''metrics-bind-address''}" by (auto simp: flag_names_def)
  obtain fl where fl: "flag_Parse (\<lambda>_ _. 0) (\<lambda>_. None) default_flags ?args = Inr fl" "metricsAddr fl = '':8443''"
    by (simp add: w formal_def flag_table_def ParseBool_def)
  obtain opts st mw ww log where p: "prepare ?env fl = Inr (opts, st, mw, ww, log)"
    using prepare_total [of ?env fl] by (auto simp: sample_env_def)
  have g: "1 \<le> growth ?env 0 1" "2 \<le> growth ?env 1 2" by (simp_all add: sample_env_def)
  have "\<exists>c. apply_opts (slice_elems st (metrics_TLSOpts (Metrics opts))) plain_tls = Ret c \<and>
    (''enable-http2'' \<notin> flag_names ?args \<longrightarrow> NextProtos c = [''http/1.1'']) \<and>
    (''metrics-secure'' \<notin> flag_names ?args \<longrightarrow> SecureServing (Metrics opts) \<and> FilterProvider (Metrics opts))"
    by (rule unnamed_flags_stay_secure [OF fl(1) p g]) simp
  then show ?thesis using fl p unfolding n by auto
qed

end
