(* ===== verification/Scheme_Registration.thy ===== *)
theory Scheme_Registration
  imports Prelude
begin

text \<open>
  How the types of \<open>api/v1alpha1\<close> get into the scheme of the process: the package variables of
  \<open>groupversion_info.go\<close>, the \<open>init\<close> function of \<open>dnsclass_types.go\<close>, and the variable and the \<open>init\<close>
  function of \<open>cmd/main.go\<close>. The scheme and its builder are the library's; the locale states what
  its documentation says of them. Go initialises the variables of a package before its \<open>init\<close>
  functions, and an imported package before the one that imports it.
\<close>

section \<open>The registration\<close>

type_synonym group_version = "string \<times> string"
type_synonym 's register = "'s \<Rightarrow> string option \<times> 's"

text \<open>Schemes \<open>'s\<close> and scheme builders \<open>'b\<close>.\<close>

record ('s, 'b) scheme_library =
  NewScheme :: 's
  AddToGroupVersion :: "group_version \<Rightarrow> 's \<Rightarrow> 's"
  AddKnownTypes :: "group_version \<Rightarrow> string list \<Rightarrow> 's \<Rightarrow> 's"
  NewSchemeBuilder :: "'s register list \<Rightarrow> 'b"
  Register :: "'b \<Rightarrow> 's register list \<Rightarrow> 'b"
  builder_AddToScheme :: "'b \<Rightarrow> 's register"

definition SchemeGroupVersion :: group_version where
  "SchemeGroupVersion = (''config.kubedns-shepherd.io'', ''v1alpha1'')"

definition GroupVersion_alias :: group_version where
  "GroupVersion_alias = SchemeGroupVersion"

text \<open>The value of the variable \<open>SchemeBuilder\<close> before and after the \<open>init\<close> function.\<close>

definition SchemeBuilder :: "('s, 'b) scheme_library \<Rightarrow> 'b" where
  "SchemeBuilder L = NewSchemeBuilder L [\<lambda>scheme. (None, AddToGroupVersion L SchemeGroupVersion scheme)]"

definition types_init :: "('s, 'b) scheme_library \<Rightarrow> 'b \<Rightarrow> 'b" where
  "types_init L builder =
     Register L builder
       [\<lambda>s. (None, AddKnownTypes L SchemeGroupVersion [''DNSClass'', ''DNSClassList''] s)]"

text \<open>
  \<open>AddToScheme\<close> is a method value on a pointer receiver: it holds the address of \<open>SchemeBuilder\<close>, so
  a call uses the builder as it is then.
\<close>

definition AddToScheme :: "('s, 'b) scheme_library \<Rightarrow> 'b \<Rightarrow> 's register" where
  "AddToScheme L builder = builder_AddToScheme L builder"

text \<open>\<open>utilruntime.Must\<close> panics on an error.\<close>

definition Must :: "string option \<times> 's \<Rightarrow> 's outcome" where
  "Must r = (case r of (None, s) \<Rightarrow> Ret s | (Some err, s) \<Rightarrow> Panic)"

definition main_init :: "('s, 'b) scheme_library \<Rightarrow> 's register \<Rightarrow> 's outcome" where
  "main_init L clientgoscheme_AddToScheme =
     (let builder = types_init L (SchemeBuilder L);
          scheme = NewScheme L
      in obind (Must (clientgoscheme_AddToScheme scheme)) (\<lambda>scheme.
         Must (AddToScheme L builder scheme)))"

section \<open>What the library documents\<close>

text \<open>The functions of a builder run in the order of their registration, up to the first error.\<close>

fun run_registers :: "'s register list \<Rightarrow> 's register" where
  "run_registers [] s = (None, s)"
| "run_registers (f # fs) s = (case f s of (None, s) \<Rightarrow> run_registers fs s | (Some err, s) \<Rightarrow> (Some err, s))"

locale scheme_laws =
  fixes L :: "('s, 'b) scheme_library" and Recognizes :: "'s \<Rightarrow> group_version \<times> string \<Rightarrow> bool"
  assumes add_new: "builder_AddToScheme L (NewSchemeBuilder L fs) s = run_registers fs s"
    and add_registered: "builder_AddToScheme L (Register L b fs) s =
      (case builder_AddToScheme L b s of
         (None, s) \<Rightarrow> run_registers fs s | (Some err, s) \<Rightarrow> (Some err, s))"
    and known: "Recognizes (AddKnownTypes L gv kinds s) (gv, k) \<longleftrightarrow> k \<in> set kinds \<or> Recognizes s (gv, k)"
    and known_other: "gv' \<noteq> gv \<Longrightarrow> Recognizes (AddKnownTypes L gv kinds s) (gv', k) = Recognizes s (gv', k)"
    and group_keeps: "Recognizes s g \<Longrightarrow> Recognizes (AddToGroupVersion L gv s) g"
begin

lemma known_keeps: "Recognizes s g \<Longrightarrow> Recognizes (AddKnownTypes L gv kinds s) g"
proof (cases g)
  case (Pair gv' k)
  then show "Recognizes s g \<Longrightarrow> Recognizes (AddKnownTypes L gv kinds s) g"
    by (cases "gv' = gv") (simp_all add: known known_other)
qed

lemma init_result:
  "main_init L clientgo =
     (case clientgo (NewScheme L) of
        (None, s) \<Rightarrow> Ret (AddKnownTypes L SchemeGroupVersion [''DNSClass'', ''DNSClassList'']
          (AddToGroupVersion L SchemeGroupVersion s))
      | (Some err, s) \<Rightarrow> Panic)"
  by (simp add: main_init_def AddToScheme_def types_init_def SchemeBuilder_def add_registered add_new
      Must_def split: prod.split option.split)

lemma init_recognizes:
  assumes "clientgo (NewScheme L) = (None, s)"
  obtains s' where "main_init L clientgo = Ret s'"
    "\<And>k. k \<in> {''DNSClass'', ''DNSClassList''} \<Longrightarrow> Recognizes s' (SchemeGroupVersion, k)"
    "\<And>g. Recognizes s g \<Longrightarrow> Recognizes s' g"
  by (rule that [of "AddKnownTypes L SchemeGroupVersion [''DNSClass'', ''DNSClassList'']
      (AddToGroupVersion L SchemeGroupVersion s)"])
    (auto simp: init_result assms known intro: known_keeps group_keeps)

end

section \<open>An instance\<close>

definition set_library :: "((group_version \<times> string) set, (group_version \<times> string) set register list) scheme_library" where
  "set_library =
     \<lparr>NewScheme = {}, AddToGroupVersion = (\<lambda>gv s. s \<union> {(gv, ''WatchEvent''), (gv, ''ListOptions'')}),
      AddKnownTypes = (\<lambda>gv kinds s. s \<union> {gv} \<times> set kinds), NewSchemeBuilder = (\<lambda>fs. fs),
      Register = (@), builder_AddToScheme = run_registers\<rparr>"

lemma run_registers_append:
  "run_registers (fs @ gs) s =
     (case run_registers fs s of (None, s) \<Rightarrow> run_registers gs s | (Some err, s) \<Rightarrow> (Some err, s))"
  by (induction fs arbitrary: s) (auto split: prod.split option.split)

interpretation set_scheme: scheme_laws set_library "\<lambda>s g. g \<in> s"
  by unfold_locales (auto simp: set_library_def run_registers_append)

section \<open>What the registration promises\<close>

text \<open>
  When the types of the API of Kubernetes are registered without an error, the process starts with a
  scheme that has both types of the package under its group and version and all of those; when
  they are not, it panics before \<open>main\<close>.
\<close>

theorem init_registers_types:
  assumes "scheme_laws L Recognizes"
  shows "(fst (clientgo (NewScheme L)) \<noteq> None \<longrightarrow> main_init L clientgo = Panic) \<and>
    (fst (clientgo (NewScheme L)) = None \<longrightarrow>
       (\<exists>s. main_init L clientgo = Ret s \<and>
          Recognizes s ((''config.kubedns-shepherd.io'', ''v1alpha1''), ''DNSClass'') \<and>
          Recognizes s ((''config.kubedns-shepherd.io'', ''v1alpha1''), ''DNSClassList'') \<and>
          (\<forall>g. Recognizes (snd (clientgo (NewScheme L))) g \<longrightarrow> Recognizes s g)))"
proof -
  obtain e s where c: "clientgo (NewScheme L) = (e, s)" by fastforce
  show ?thesis
  proof (cases e)
    case (Some err)
    with c scheme_laws.init_result [OF assms] show ?thesis by simp
  next
    case None
    with c scheme_laws.init_recognizes [OF assms, of clientgo s] show ?thesis
      by (auto simp: SchemeGroupVersion_def [symmetric]) (metis insertCI)
  qed
qed

theorem init_registers_types_witness:
  "\<exists>s. main_init set_library (\<lambda>s. (None, s \<union> {(([], ''v1''), ''Pod'')})) = Ret s \<and>
     ((''config.kubedns-shepherd.io'', ''v1alpha1''), ''DNSClass'') \<in> s \<and> (([], ''v1''), ''Pod'') \<in> s"
  using init_registers_types [OF set_scheme.scheme_laws_axioms, of "\<lambda>s. (None, s \<union> {(([], ''v1''), ''Pod'')})"]
  by auto

end
