(* ===== verification/Spec2Isabelle.thy ===== *)
theory Spec2Isabelle
  imports Concurrency Controller_Loop Racing_Update Loadgen_System Pod_Webhook_Serving Command_Line Scheme_Registration
begin

text \<open>
  KubeDNS Shepherd: the verification development.

  \<^bold>\<open>The program.\<close> A manager process (\<open>cmd/main.go\<close>) serves three admission webhooks and runs one
  reconciler. Users write DNSClass objects (\<open>api/v1alpha1\<close>): a DNS policy, optionally a DNS
  configuration whose search domains are templates such as \<open>{{ .podNamespace }}.svc\<close>, and the
  namespaces and pod policies the class is for. The class webhooks
  (\<open>internal/webhook/v1alpha1\<close>) default and validate what users write. The reconciler
  (\<open>internal/controller\<close>) reads the cluster domain and the nameservers from a kubelet and records
  them with a state in the status. The pod webhook (\<open>internal/webhook/pods\<close>) chooses a class for
  every pod that is created, renders the searches and writes the DNS configuration into the pod.
  The parts meet in the stored objects: the pod webhook trusts the status the reconciler wrote,
  which trusts the specification the class webhooks let through. A second program,
  \<open>docs/dns-demo/loadgen/main.go\<close>, sends DNS lookups from a pool of workers and reports the
  requests and responses that passed through its connections.

  \<^bold>\<open>Theories and sources.\<close>

    \<^item> \<open>Prelude\<close>: Go values (slices that may be nil, calls that may panic), the functions of
      \<open>slices\<close>, \<open>strings\<close> and \<open>strconv\<close> the code calls, lemmas on lists and maps.
    \<^item> \<open>DNSClass_Types\<close>, \<open>Template_Keys\<close>: \<open>api/v1alpha1/dnsclass_types.go\<close>. The objects as records;
      \<open>ExtractTemplateKeysRegex\<close> with the regular expression as a relation and the scanner as a
      function, and the locale \<open>key_extractor\<close> for what the other parts use of it.
    \<^item> \<open>DNSClass_Webhook\<close>: \<open>internal/webhook/v1alpha1/dnsclass_webhook.go\<close>, defaulting and validation
      with all error values.
    \<^item> \<open>Controller\<close>, \<open>Controller_Properties\<close>: \<open>internal/controller/dnsclass_controller.go\<close>. The
      operations pass a state of a world (of any type) and a trace of the calls; the record
      \<open>Reconciler\<close> holds the collaborators.
    \<^item> \<open>Go_Template\<close>, \<open>Pod_Webhook\<close>: \<open>internal/webhook/pods/pods_webhook.go\<close> on values, with the
      part of \<open>text/template\<close> it uses: field templates and the slips in writing them that do not
      parse; the locale \<open>search_renderer\<close> is the engine as the webhook sees it.
    \<^item> \<open>Go_Heap\<close>, \<open>Deep_Copy\<close>: \<open>api/v1alpha1/zz_generated.deepcopy.go\<close> on a heap of typed cells, with
      the locales \<open>cell_type\<close>, \<open>object\<close>, \<open>deepcopy\<close> and those built from them.
    \<^item> \<open>Pod_Webhook_Store\<close>, \<open>Pod_Webhook_Serving\<close>: the pod webhook again, on that heap, where the
      class and the pod share pointers; the locale \<open>webhook_environment\<close> is what the handler needs
      of its decoder and its client.
    \<^item> \<open>System\<close>: the class webhooks, the reconciler and the pod webhook on one cluster, as a step
      relation with reachable states. \<open>Concurrency\<close>: the same with runs of the reconciler that
      overlap with all other steps and with reads from a stale cache (locale \<open>concurrent_api\<close>).
      \<open>Racing_Update\<close>: an API server with resource versions, and a user who is faster than a run.
    \<^item> \<open>Controller_Loop\<close>: the reconciler behind the work queue that \<open>SetupWithManager\<close> asks for, with
      the event filter, several workers and users at the same time; any call of the API server may
      fail (locale \<open>worker_api\<close>).
    \<^item> \<open>Process_Startup\<close>, \<open>Command_Line\<close>: \<open>cmd/main.go\<close>. The arguments and flags, the TLS options as
      slices with shared backing arrays, the certificate watchers, the sequence of calls that build
      and start the manager.
    \<^item> \<open>Scheme_Registration\<close>: \<open>groupversion_info.go\<close> and the \<open>init\<close> functions, which put the types
      into the library's scheme (locale \<open>scheme_laws\<close>).
    \<^item> \<open>Loadgen_Wire\<close>, \<open>Loadgen_Tracker\<close>, \<open>Loadgen_Main\<close>, \<open>Loadgen_System\<close>:
      \<open>docs/dns-demo/loadgen/main.go\<close>. The message reader on bytes, the tracker with 64-bit
      counters, the settings and the worker pool as a step relation, the whole run.

  \<^bold>\<open>What the lemmas show.\<close> Validation accepts exactly the valid objects and reports every violated
  rule; the scanner finds the leftmost matches of the regular expression; rendering field templates is
  substitution. Every run of the reconciler returns, writes only final states, and fails exactly
  when a key that is used was not discovered. Every stored class is valid, and the pod webhook
  does not panic as long as the policy under a name does not change, in any interleaving; a
  policy change does make it panic, and one between the read and the write of a run leaves a ready
  class on which it panics. Even then, as long as runs get their status updates through, every class
  that is not ready for its specification is queued, and a queue that nobody disturbs is emptied; a
  refused status update is lost. A ready class configures its pods unless a search does not parse,
  which validation lets through. The
  heap version of the pod webhook answers every sequence of requests as the value version does,
  because the list it works on is a deep copy; deep copies have equal values on fresh cells. The
  process makes the planned calls in order, and unless a flag says otherwise both servers are
  restricted to HTTP/1.1 and the metrics are protected. The message reader never leaves the
  packet, reads exactly the names of the wire format, and reads back what was encoded; the
  tracker does not depend on the order of packets; the pool ends and its report adds up.

  \<^bold>\<open>Bounds and fuel.\<close> The loop of the name reader runs 128 times, as the code says, which is enough
  for the 127 labels a name within the limits can have, and its running out is one of the errors
  of the code. \<open>RetryOnConflict\<close> tries any bounded number of times. Counters and durations wrap at
  64 bits. Everything else terminates by structure or by a measure.

  \<^bold>\<open>Parameters.\<close> The API server, the caches, the REST client, the JSON and pod decoders, the clock,
  \<open>meta.SetStatusCondition\<close>, \<open>retry.RetryOnConflict\<close>, the deep copies of library types, templates
  beyond fields and their slips, the growth of arrays by \<open>append\<close>, the floating-point part of a
  duration, the flags of libraries, the resolver and the network are arguments of the definitions.
  What a theorem needs of them is a named hypothesis or a locale (\<open>retry_contract\<close>,
  \<open>condition_contract\<close>, \<open>cluster_client\<close>, \<open>reliable_client\<close>, \<open>concurrent_api\<close>,
  \<open>worker_api\<close>, \<open>library_contract\<close>, \<open>typed_library\<close>, \<open>webhook_environment\<close>,
  \<open>scheme_laws\<close>), each shown to hold of a concrete instance.

  \<^bold>\<open>Not modelled.\<close> Log output. The two time figures of the load generator's report and its printing.
  What the library does behind the builders of the set-up functions, beyond the work queue. Tests
  and test utilities, which run external commands, and the deployment files, which hold no code.
\<close>

end
